(* ===== verification/Quotes_Prelude.thy ===== *)
theory Quotes_Prelude
  imports Main
begin

text \<open>
  Shared vocabulary of the development.

  \<^item> Rust's \<^verbatim>\<open>String\<close> is a sequence of UTF-8 bytes: \<open>String\<close> is \<open>char list\<close>, one
    \<open>char\<close> per byte, so that a code point beyond ASCII is written as its bytes. The
    type is wider than Rust's, which admits valid UTF-8 only; the program copies and
    concatenates strings and never looks inside one, and no theorem of the development
    depends on the validity of a string.
  \<^item> Rust's \<^verbatim>\<open>Result<T, E>\<close> is the sum \<open>'e + 't\<close>; \<open>Ok\<close> and \<open>Err\<close> abbreviate \<open>Inr\<close>
    and \<open>Inl\<close>. The question-mark operator is \<open>question_io\<close>: it returns early with
    the converted error, or continues with the value. Both the error conversion and the
    continuation may have an effect on the outside world, so the operator threads the
    world \<open>'w\<close> through them.
  \<^item> A machine that consumes events and emits one output per event is a function
    \<open>'s \<Rightarrow> 'e \<Rightarrow> 's \<times> 'o\<close>. \<open>run\<close> folds it over a list of events and collects the
    outputs; the lemmas below are the interface through which the component theories
    reason about whole runs (they are stated over type variables and instantiated by
    the application's \<open>update\<close>).
  \<^item> A system whose steps are enabled or not is a function \<open>'s \<Rightarrow> 'a \<Rightarrow> 's option\<close>;
    \<open>exec\<close> runs a list of actions and is \<open>None\<close> as soon as one of them is not
    enabled. \<open>observe\<close> collects what an observation function sees along an
    execution. \<open>exec_invariant\<close> and \<open>exec_potential\<close> are the two proof rules the run
    loop's invariants rest on; \<open>exec_refines_run\<close> is the rule by which an execution is
    shown to be a run of a machine over the observed events.
  \<^item> \<open>count_where\<close> counts the elements of a list that satisfy a predicate; the
    accounting invariants of the run loop are sums of such counts.
  \<^item> The collection \<open>quotes_defs\<close> gathers the unfolding equations of the components'
    definitions; \<open>quotes_inv\<close> gathers the preservation lemmas of the run loop.
\<close>

named_theorems quotes_defs
named_theorems quotes_inv

type_synonym String = string

type_synonym ('t, 'e) Result = "'e + 't"

abbreviation Ok :: "'t \<Rightarrow> 'e + 't" where
  "Ok \<equiv> Inr"

abbreviation Err :: "'e \<Rightarrow> 'e + 't" where
  "Err \<equiv> Inl"

definition question_io ::
  "('e \<Rightarrow> 'w \<Rightarrow> 'f \<times> 'w) \<Rightarrow> ('e + 'a) \<times> 'w \<Rightarrow> ('a \<Rightarrow> 'w \<Rightarrow> ('f + 'b) \<times> 'w) \<Rightarrow> ('f + 'b) \<times> 'w" where
  "question_io conv rw k =
     (case rw of
        (Inl e, w) \<Rightarrow> (case conv e w of (f, w') \<Rightarrow> (Inl f, w'))
      | (Inr a, w) \<Rightarrow> k a w)"

definition count_where :: "('a \<Rightarrow> bool) \<Rightarrow> 'a list \<Rightarrow> nat" where
  "count_where P xs = length (filter P xs)"

fun run :: "('s \<Rightarrow> 'e \<Rightarrow> 's \<times> 'o) \<Rightarrow> 's \<Rightarrow> 'e list \<Rightarrow> 's \<times> 'o list" where
  "run step s [] = (s, [])"
| "run step s (e # es) =
     (case step s e of (s', out) \<Rightarrow>
        (case run step s' es of (s'', outs) \<Rightarrow> (s'', out # outs)))"

fun exec :: "('s \<Rightarrow> 'a \<Rightarrow> 's option) \<Rightarrow> 's \<Rightarrow> 'a list \<Rightarrow> 's option" where
  "exec f s [] = Some s"
| "exec f s (a # as) = (case f s a of None \<Rightarrow> None | Some t \<Rightarrow> exec f t as)"

fun observe :: "('s \<Rightarrow> 'a \<Rightarrow> 's option) \<Rightarrow> ('s \<Rightarrow> 'a \<Rightarrow> 'x list) \<Rightarrow> 's \<Rightarrow> 'a list \<Rightarrow> 'x list" where
  "observe f obs s [] = []"
| "observe f obs s (a # as) =
     (case f s a of None \<Rightarrow> [] | Some t \<Rightarrow> obs s a @ observe f obs t as)"

definition run_state :: "('s \<Rightarrow> 'e \<Rightarrow> 's \<times> 'o) \<Rightarrow> 's \<Rightarrow> 'e list \<Rightarrow> 's" where
  "run_state step s es = fst (run step s es)"

definition run_outputs :: "('s \<Rightarrow> 'e \<Rightarrow> 's \<times> 'o) \<Rightarrow> 's \<Rightarrow> 'e list \<Rightarrow> 'o list" where
  "run_outputs step s es = snd (run step s es)"

subsection \<open>Results\<close>

lemma question_io_Ok [simp]: "question_io conv (Ok a, w) k = k a w"
  by (simp add: question_io_def)

lemma question_io_Err [simp]:
  "question_io conv (Err e, w) k = (Err (fst (conv e w)), snd (conv e w))"
  by (simp add: question_io_def split: prod.split)

subsection \<open>Counting\<close>

lemma count_where_Nil [simp]: "count_where P [] = 0"
  by (simp add: count_where_def)

lemma count_where_Cons [simp]:
  "count_where P (x # xs) = (if P x then Suc (count_where P xs) else count_where P xs)"
  by (simp add: count_where_def)

lemma count_where_append [simp]:
  "count_where P (xs @ ys) = count_where P xs + count_where P ys"
  by (simp add: count_where_def)

lemma count_where_cong:
  "(\<And>x. x \<in> set xs \<Longrightarrow> P x = Q x) \<Longrightarrow> count_where P xs = count_where Q xs"
  by (induction xs) simp_all

subsection \<open>Runs of a machine with outputs\<close>

lemma run_state_Nil [simp]: "run_state step s [] = s"
  by (simp add: run_state_def)

lemma run_outputs_Nil [simp]: "run_outputs step s [] = []"
  by (simp add: run_outputs_def)

lemma run_state_Cons [simp]:
  "run_state step s (e # es) = run_state step (fst (step s e)) es"
  by (simp add: run_state_def split: prod.split)

lemma run_outputs_Cons [simp]:
  "run_outputs step s (e # es) = snd (step s e) # run_outputs step (fst (step s e)) es"
  by (simp add: run_outputs_def split: prod.split)

lemma run_eq: "run step s es = (run_state step s es, run_outputs step s es)"
  by (simp add: run_state_def run_outputs_def)

lemma run_state_append [simp]:
  "run_state step s (es @ fs) = run_state step (run_state step s es) fs"
  by (induction es arbitrary: s) simp_all

lemma run_outputs_append [simp]:
  "run_outputs step s (es @ fs) =
     run_outputs step s es @ run_outputs step (run_state step s es) fs"
  by (induction es arbitrary: s) simp_all

lemma length_run_outputs [simp]: "length (run_outputs step s es) = length es"
  by (induction es arbitrary: s) simp_all

subsection \<open>Executions of a partial step function\<close>

lemma exec_append:
  "exec f s (as @ bs) = (case exec f s as of None \<Rightarrow> None | Some t \<Rightarrow> exec f t bs)"
  by (induction as arbitrary: s) (simp_all split: option.split)

lemma exec_append_Some:
  "exec f s as = Some t \<Longrightarrow> exec f t bs = Some u \<Longrightarrow> exec f s (as @ bs) = Some u"
  by (simp add: exec_append)

lemma exec_snoc:
  "exec f s (as @ [a]) = (case exec f s as of None \<Rightarrow> None | Some t \<Rightarrow> f t a)"
  by (simp add: exec_append split: option.split)

lemma exec_single [simp]: "exec f s [a] = f s a"
  by (simp split: option.split)

lemma exec_invariant:
  assumes "exec f s as = Some t" and "P s"
    and "\<And>s a t. P s \<Longrightarrow> f s a = Some t \<Longrightarrow> P t"
  shows "P t"
  using assms(1,2)
proof (induction as arbitrary: s)
  case Nil
  then show ?case by simp
next
  case (Cons a as)
  then obtain u where u: "f s a = Some u" and rest: "exec f u as = Some t"
    by (auto split: option.splits)
  from Cons.prems(2) u have "P u"
    by (rule assms(3))
  with rest show ?case
    by (rule Cons.IH)
qed

text \<open>
  A potential that a step raises by at most one, and only when the action is of a
  given kind, is bounded over an execution by the number of actions of that kind.
\<close>
lemma exec_potential:
  fixes pot :: "'s \<Rightarrow> nat"
  assumes "exec f s as = Some t" and "P s"
    and "\<And>s a t. P s \<Longrightarrow> f s a = Some t \<Longrightarrow> P t"
    and "\<And>s a t. P s \<Longrightarrow> f s a = Some t \<Longrightarrow> pot t \<le> pot s + (if up a then 1 else 0)"
  shows "pot t \<le> pot s + count_where up as"
  using assms(1,2)
proof (induction as arbitrary: s)
  case Nil
  then show ?case by simp
next
  case (Cons a as)
  then obtain u where u: "f s a = Some u" and rest: "exec f u as = Some t"
    by (auto split: option.splits)
  from Cons.prems(2) u have "P u"
    by (rule assms(3))
  with rest have "pot t \<le> pot u + count_where up as"
    by (rule Cons.IH)
  moreover from Cons.prems(2) u have "pot u \<le> pot s + (if up a then 1 else 0)"
    by (rule assms(4))
  ultimately show ?case
    by (simp split: if_splits)
qed

subsection \<open>Observations along an execution\<close>

lemma exec_ConsE:
  assumes "exec f s (a # as) = Some t"
  obtains u where "f s a = Some u" and "exec f u as = Some t"
  using assms by (auto split: option.splits)

text \<open>
  A projection of the state that every step moves as a machine moves on the events
  observed at that step is, after an execution, the run of the machine over all the
  events observed.
\<close>
lemma exec_refines_run:
  assumes "exec f s as = Some t"
    and "\<And>s a u. f s a = Some u \<Longrightarrow> st u = run_state step (st s) (obs s a)"
  shows "st t = run_state step (st s) (observe f obs s as)"
  using assms(1)
proof (induction as arbitrary: s)
  case Nil
  then show ?case by simp
next
  case (Cons a as)
  from Cons.prems obtain u where u: "f s a = Some u" and rest: "exec f u as = Some t"
    by (rule exec_ConsE)
  from u have "st u = run_state step (st s) (obs s a)"
    by (rule assms(2))
  with Cons.IH [OF rest] u show ?case
    by simp
qed

end
