(* ===== verification/Quotes_Fetcher.thy ===== *)
theory Quotes_Fetcher
  imports Quotes_Prelude
begin

text \<open>
  The quote fetcher: \<^verbatim>\<open>struct Quote\<close>, \<^verbatim>\<open>Quote::search\<close>, \<^verbatim>\<open>enum Error\<close> and
  \<^verbatim>\<open>impl From<reqwest::Error> for Error\<close> of src/src/main.rs.

  \<^verbatim>\<open>search\<close> is the only part of the program that touches the outside world. The world
  is explicit here:
  \<^item> the network is a function \<open>'e Network\<close> from a URL to the outcome of one GET, an
    error of the HTTP library or a response; the library's error type is the type
    variable \<open>'e\<close>, because the program never looks inside it;
  \<^item> a response carries its status code and the outcome of decoding its body as an
    \<open>Entry\<close> (what \<^verbatim>\<open>Response::json::<Entry>()\<close> returns), so that no behaviour of the
    JSON library is assumed beyond "it yields an entry or an error";
  \<^item> \<open>'e Io\<close> records what a task did to the world: the requests it sent, in order,
    and the values \<^verbatim>\<open>dbg!\<close> printed to standard error, in order.
  The operations thread the \<open>Io\<close> record through, in the order of the source.

  The lemmas give the result of \<open>search\<close> on every branch, its requests and its log, and
  show that the status code of the response plays no part. \<open>outcome\<close> names the answer
  of the fixed endpoint (the entry or the library's error); \<open>answering\<close> and \<open>failing\<close>
  are the networks the examples run against: one that serves an entry and one whose
  transport fails.
\<close>

record Quote =
  content :: String
  author :: String

datatype Error = APIError

record Entry =
  entry_content :: String
  entry_author :: String

record 'e Response =
  status :: nat
  json :: "'e + Entry"

type_synonym 'e Network = "String \<Rightarrow> 'e + 'e Response"

record 'e Io =
  requests :: "String list"
  stderr :: "'e list"

definition url :: String where
  "url = ''https://api.quotable.io/random''"

definition reqwest_get :: "'e Network \<Rightarrow> String \<Rightarrow> 'e Io \<Rightarrow> ('e + 'e Response) \<times> 'e Io" where
  "reqwest_get net u io = (net u, io\<lparr>requests := requests io @ [u]\<rparr>)"

definition dbg :: "'e \<Rightarrow> 'e Io \<Rightarrow> 'e \<times> 'e Io" where
  "dbg v io = (v, io\<lparr>stderr := stderr io @ [v]\<rparr>)"

definition from_reqwest_Error :: "'e \<Rightarrow> 'e Io \<Rightarrow> Error \<times> 'e Io" where
  "from_reqwest_Error error io = (case dbg error io of (_, io') \<Rightarrow> (APIError, io'))"

definition fetch_entry :: "'e Network \<Rightarrow> 'e Io \<Rightarrow> ('e + Entry) \<times> 'e Io" where
  "fetch_entry net io =
     question_io (\<lambda>e w. (e, w)) (reqwest_get net url io) (\<lambda>response w. (json response, w))"

definition search :: "'e Network \<Rightarrow> 'e Io \<Rightarrow> (Error + Quote) \<times> 'e Io" where
  "search net io =
     question_io from_reqwest_Error (fetch_entry net io)
       (\<lambda>entry w. (Ok \<lparr>content = entry_content entry, author = entry_author entry\<rparr>, w))"

definition quote_of :: "Entry \<Rightarrow> Quote" where
  "quote_of entry = \<lparr>content = entry_content entry, author = entry_author entry\<rparr>"

definition outcome :: "'e Network \<Rightarrow> 'e + Entry" where
  "outcome net = (case net url of Inl e \<Rightarrow> Inl e | Inr response \<Rightarrow> json response)"

definition entry_of :: "Quote \<Rightarrow> Entry" where
  "entry_of q = \<lparr>entry_content = content q, entry_author = author q\<rparr>"

definition answering :: "Entry \<Rightarrow> 'e Network" where
  "answering entry = (\<lambda>u. Ok \<lparr>status = 200, json = Ok entry\<rparr>)"

definition failing :: "'e \<Rightarrow> 'e Network" where
  "failing e = (\<lambda>u. Err e)"

definition wilde :: Entry where
  "wilde = \<lparr>entry_content = ''Be yourself'', entry_author = ''Oscar Wilde''\<rparr>"

lemmas fetcher_defs [quotes_defs] =
  reqwest_get_def dbg_def from_reqwest_Error_def fetch_entry_def search_def

subsection \<open>The steps of a fetch\<close>

lemma reqwest_get_simps [simp]:
  "fst (reqwest_get net u io) = net u"
  "requests (snd (reqwest_get net u io)) = requests io @ [u]"
  "stderr (snd (reqwest_get net u io)) = stderr io"
  by (simp_all add: reqwest_get_def)

lemma from_reqwest_Error_simps [simp]:
  "fst (from_reqwest_Error e io) = APIError"
  "requests (snd (from_reqwest_Error e io)) = requests io"
  "stderr (snd (from_reqwest_Error e io)) = stderr io @ [e]"
  by (simp_all add: from_reqwest_Error_def dbg_def)

lemma fetch_entry_result [simp]: "fst (fetch_entry net io) = outcome net"
  by (cases "net url") (simp_all add: fetch_entry_def reqwest_get_def outcome_def)

lemma fetch_entry_io [simp]:
  "snd (fetch_entry net io) = io\<lparr>requests := requests io @ [url]\<rparr>"
  by (cases "net url") (simp_all add: fetch_entry_def reqwest_get_def)

lemma fetch_entry_eq:
  "fetch_entry net io = (outcome net, io\<lparr>requests := requests io @ [url]\<rparr>)"
  by (simp add: prod_eq_iff)

lemma search_eq:
  "search net io =
     (case outcome net of
        Inl e \<Rightarrow> (Err APIError, io\<lparr>requests := requests io @ [url], stderr := stderr io @ [e]\<rparr>)
      | Inr entry \<Rightarrow> (Ok (quote_of entry), io\<lparr>requests := requests io @ [url]\<rparr>))"
  by (simp add: search_def fetch_entry_eq quote_of_def from_reqwest_Error_def dbg_def
      split: sum.split)

lemma quote_of_inject [simp]: "quote_of e = quote_of e' \<longleftrightarrow> e = e'"
  by (cases e, cases e') (simp add: quote_of_def)

lemma quote_of_fields [simp]:
  "content (quote_of e) = entry_content e" "author (quote_of e) = entry_author e"
  by (simp_all add: quote_of_def)

lemma search_io_requests [simp]:
  "requests (snd (search net io)) = requests io @ [url]"
  by (simp add: search_eq split: sum.split)

lemma search_io_stderr_length:
  "length (stderr (snd (search net io))) \<le> Suc (length (stderr io))"
  by (simp add: search_eq split: sum.split)

lemma quote_of_entry_of [simp]: "quote_of (entry_of q) = q"
  by (simp add: quote_of_def entry_of_def)

lemma entry_of_quote_of [simp]: "entry_of (quote_of e) = e"
  by (simp add: quote_of_def entry_of_def)

lemma outcome_simps [simp]:
  "outcome (answering entry) = Ok entry"
  "outcome (failing e) = Err e"
  by (simp_all add: outcome_def answering_def failing_def)

lemma search_answering [simp]:
  "search (answering entry) io = (Ok (quote_of entry), io\<lparr>requests := requests io @ [url]\<rparr>)"
  by (simp add: search_eq)

lemma search_failing [simp]:
  "search (failing e) io =
     (Err APIError, io\<lparr>requests := requests io @ [url], stderr := stderr io @ [e]\<rparr>)"
  by (simp add: search_eq)

subsection \<open>Properties of \<open>search\<close>\<close>

text \<open>
  C3 (functional). The result of \<open>search\<close> on every branch: a transport error and a
  decoding error both become \<open>Err APIError\<close>; a decoded entry becomes \<open>Ok\<close> of the quote
  with the entry's two strings, unchanged.
\<close>
theorem search_result:
  "fst (search net io) =
     (case net url of
        Inl e \<Rightarrow> Err APIError
      | Inr response \<Rightarrow>
          (case json response of
             Inl e \<Rightarrow> Err APIError
           | Inr entry \<Rightarrow> Ok \<lparr>content = entry_content entry, author = entry_author entry\<rparr>))"
  by (simp add: search_eq outcome_def quote_of_def split: sum.split)

text \<open>
  C10 (error). What one call of \<open>search\<close> does to the world: it sends exactly one
  request, to the fixed endpoint, whatever the network answers; a failed fetch prints
  its cause to standard error exactly once, the transport error or the decoding error
  as the library reported it, and a successful fetch prints nothing.
\<close>
theorem search_effects:
  "snd (search net io) =
     io\<lparr>requests := requests io @ [''https://api.quotable.io/random''],
        stderr := stderr io @
          (case net url of
             Inl e \<Rightarrow> [e]
           | Inr response \<Rightarrow> (case json response of Inl e \<Rightarrow> [e] | Inr entry \<Rightarrow> []))\<rparr>"
  by (simp add: search_eq outcome_def url_def split: sum.split)

text \<open>
  C22 (functional). The HTTP status of the response is never consulted: a response
  whose body decodes yields the same result under any status code.
\<close>
theorem search_ignores_status:
  "fst (search (\<lambda>u. Ok (response\<lparr>status := n\<rparr>)) io) = fst (search (\<lambda>u. Ok response) io)"
  by (simp add: search_eq outcome_def split: sum.split)

end
