(* ===== verification/Quotes_App.thy ===== *)
theory Quotes_App
  imports Quotes_Fetcher
begin

text \<open>
  The application state machine: \<^verbatim>\<open>enum Quotes\<close>, \<^verbatim>\<open>enum Message\<close> and the methods
  \<^verbatim>\<open>new\<close>, \<^verbatim>\<open>title\<close> and \<^verbatim>\<open>update\<close> of \<^verbatim>\<open>impl Application for Quotes\<close> in
  src/src/main.rs.

  The state is the datatype \<open>Quotes\<close> with the source's three variants. \<open>update\<close> takes
  the state and a message and returns the new state with the command it hands to the
  run loop. A command is first order here: \<open>Command_none\<close>, or \<open>Command_perform f m\<close>
  for a future \<open>f\<close> whose result is wrapped by the message constructor \<open>m\<close>; the program
  has one future, \<^verbatim>\<open>Quote::search()\<close>, and one wrapper, \<^verbatim>\<open>Message::QuoteFound\<close>.

  The transition table of the specification is the function \<open>transition\<close> over the
  specification's events and effects; \<open>update\<close> is shown to implement it. The run
  lemmas then account for the fetches a whole sequence of messages can start, and give
  a run in closed form: the state after it by \<open>state_after\<close>, the positions at which a
  fetch starts by \<open>starts_fetch\<close>.
\<close>

datatype Quotes =
    Loading
  | Loaded (quote: Quote)
  | Errored

datatype Message =
    QuoteFound "Error + Quote"
  | Search

datatype Future = Quote_search

datatype Mapper = Message_QuoteFound

datatype Command =
    Command_none
  | Command_perform Future Mapper

definition new :: "unit \<Rightarrow> Quotes \<times> Command" where
  "new flags = (Loading, Command_perform Quote_search Message_QuoteFound)"

definition title :: "Quotes \<Rightarrow> String" where
  "title self =
     (let subtitle =
        (case self of
           Loading \<Rightarrow> ''Loading''
         | Loaded q \<Rightarrow> author q
         | Errored \<Rightarrow> ''Whoops!'')
      in subtitle @ '' - Pok'' @ [CHR 0xC3, CHR 0xA9] @ ''dex'')"

fun update :: "Quotes \<Rightarrow> Message \<Rightarrow> Quotes \<times> Command" where
  "update self (QuoteFound (Inr q)) = (Loaded q, Command_none)"
| "update self (QuoteFound (Inl error)) = (Errored, Command_none)"
| "update self Search =
     (case self of
        Loading \<Rightarrow> (self, Command_none)
      | _ \<Rightarrow> (Loading, Command_perform Quote_search Message_QuoteFound))"

fun apply_mapper :: "Mapper \<Rightarrow> Error + Quote \<Rightarrow> Message" where
  "apply_mapper Message_QuoteFound r = QuoteFound r"

subsection \<open>The specification's transition table\<close>

datatype Event =
    FetchCompleted "Error + Quote"
  | SearchRequested

datatype Effect =
    No_effect
  | Schedule_fetch

fun transition :: "Quotes \<Rightarrow> Event \<Rightarrow> Quotes \<times> Effect" where
  "transition s (FetchCompleted (Inr q)) = (Loaded q, No_effect)"
| "transition s (FetchCompleted (Inl e)) = (Errored, No_effect)"
| "transition Loading SearchRequested = (Loading, No_effect)"
| "transition (Loaded q) SearchRequested = (Loading, Schedule_fetch)"
| "transition Errored SearchRequested = (Loading, Schedule_fetch)"

fun event_of :: "Message \<Rightarrow> Event" where
  "event_of (QuoteFound r) = FetchCompleted r"
| "event_of Search = SearchRequested"

fun effect_of :: "Command \<Rightarrow> Effect" where
  "effect_of Command_none = No_effect"
| "effect_of (Command_perform f m) = Schedule_fetch"

subsection \<open>Observations on states, messages and commands\<close>

fun is_QuoteFound :: "Message \<Rightarrow> bool" where
  "is_QuoteFound (QuoteFound r) = True"
| "is_QuoteFound Search = False"

fun is_fetch :: "Command \<Rightarrow> bool" where
  "is_fetch Command_none = False"
| "is_fetch (Command_perform f m) = True"

definition awaiting :: "Quotes \<Rightarrow> nat" where
  "awaiting s = (if s = Loading then 1 else 0)"

definition loaded_with :: "Error + Quote \<Rightarrow> Quotes" where
  "loaded_with r = (case r of Inl e \<Rightarrow> Errored | Inr q \<Rightarrow> Loaded q)"

definition fetches :: "Quotes \<Rightarrow> Message list \<Rightarrow> nat" where
  "fetches s ms = count_where is_fetch (run_outputs update s ms)"

definition fetch :: Command where
  "fetch = Command_perform Quote_search Message_QuoteFound"

text \<open>
  A run without recursion: \<open>state_after s ms\<close> reads the state off the last message,
  and \<open>starts_fetch s ms i\<close> says whether the \<open>i\<close>-th message is a search request
  that does not follow another one.
\<close>
definition state_after :: "Quotes \<Rightarrow> Message list \<Rightarrow> Quotes" where
  "state_after s ms =
     (if ms = [] then s else (case last ms of QuoteFound r \<Rightarrow> loaded_with r | Search \<Rightarrow> Loading))"

definition starts_fetch :: "Quotes \<Rightarrow> Message list \<Rightarrow> nat \<Rightarrow> bool" where
  "starts_fetch s ms i \<longleftrightarrow>
     ms ! i = Search \<and> (if i = 0 then s \<noteq> Loading else is_QuoteFound (ms ! (i - 1)))"

lemmas app_defs [quotes_defs] = new_def title_def awaiting_def loaded_with_def fetch_def

subsection \<open>Single steps\<close>

fun_cases update_QuoteFoundE: "update s (QuoteFound r) = (s', c)"
fun_cases update_SearchE: "update s Search = (s', c)"

lemma update_QuoteFound [simp]: "update s (QuoteFound r) = (loaded_with r, Command_none)"
  by (cases r) (simp_all add: loaded_with_def)

lemma update_Search [simp]:
  "update s Search = (Loading, if s = Loading then Command_none else fetch)"
  by (cases s) (simp_all add: fetch_def)

lemmas update_eq = update_QuoteFound update_Search

declare update.simps [simp del]

lemma awaiting_simps [simp]:
  "awaiting Loading = 1" "awaiting (Loaded q) = 0" "awaiting Errored = 0"
  by (simp_all add: awaiting_def)

lemma awaiting_loaded_with [simp]: "awaiting (loaded_with r) = 0"
  by (cases r) (simp_all add: loaded_with_def)

lemma loaded_with_neq_Loading [simp]: "loaded_with r \<noteq> Loading" "Loading \<noteq> loaded_with r"
  by (cases r; simp add: loaded_with_def)+

lemma awaiting_le_1: "awaiting s \<le> 1"
  by (simp add: awaiting_def)

lemma is_fetch_fetch [simp]: "is_fetch fetch" "fetch \<noteq> Command_none"
  by (simp_all add: fetch_def)

lemma update_cases:
  obtains (found) r where "m = QuoteFound r" "update s m = (loaded_with r, Command_none)"
  | (ignored) "m = Search" "s = Loading" "update s m = (Loading, Command_none)"
  | (started) "m = Search" "s \<noteq> Loading" "update s m = (Loading, fetch)"
  by (cases m) auto

text \<open>
  The accounting of one step: what is awaited afterwards, plus what was completed, is
  what was awaited before plus what was started, unless a completion arrived that
  nothing was waiting for.
\<close>
lemma update_accounting:
  "awaiting s + (if is_fetch (snd (update s m)) then 1 else 0) \<le>
     awaiting (fst (update s m)) + (if is_QuoteFound m then 1 else 0)"
  by (cases m) (simp_all add: awaiting_def)

subsection \<open>Properties of \<open>update\<close> and \<open>title\<close>\<close>

text \<open>
  C1 (refinement). \<open>update\<close> implements the transition table of the specification:
  under the reading of messages as events and of commands as effects, the new state
  and the effect are those of the table, in every state and for every message.
\<close>
theorem update_refines_transition:
  "transition s (event_of m) = (fst (update s m), effect_of (snd (update s m)))"
proof (cases m)
  case (QuoteFound r)
  then show ?thesis by (cases r) (simp_all add: loaded_with_def)
next
  case Search
  then show ?thesis by (cases s) (simp_all add: fetch_def)
qed

text \<open>
  C23 (functional). When two states have the same window title: two loaded states
  exactly when their quotes have the same author, whatever the text; a loaded state
  and a fixed screen exactly when the author is the fixed word of that screen
  ("Loading" or "Whoops!"); otherwise only when the states are equal. So the title
  shows the author unchanged, and it does not always tell a quote from the loading or
  the failure screen.
\<close>
theorem title_collisions:
  "title s = title t \<longleftrightarrow>
     (case (s, t) of
        (Loaded q, Loaded q') \<Rightarrow> author q = author q'
      | (Loaded q, Loading) \<Rightarrow> author q = ''Loading''
      | (Loading, Loaded q) \<Rightarrow> author q = ''Loading''
      | (Loaded q, Errored) \<Rightarrow> author q = ''Whoops!''
      | (Errored, Loaded q) \<Rightarrow> author q = ''Whoops!''
      | (s', t') \<Rightarrow> s' = t')"
  by (cases s; cases t) (auto simp: title_def)

subsection \<open>Runs\<close>

lemma fetches_Nil [simp]: "fetches s [] = 0"
  by (simp add: fetches_def)

lemma fetches_Cons [simp]:
  "fetches s (m # ms) =
     (if is_fetch (snd (update s m)) then 1 else 0) + fetches (fst (update s m)) ms"
  by (simp add: fetches_def)

lemma fetches_append [simp]:
  "fetches s (ms @ ns) = fetches s ms + fetches (run_state update s ms) ns"
  by (simp add: fetches_def)

text \<open>
  C2 (safety). Over any sequence of messages, from any state: the fetches started,
  plus the one awaited at the start if the run began in \<open>Loading\<close>, never exceed the
  fetch results delivered plus the one awaited at the end. So at most one fetch is
  outstanding at any time, provided only that a result is delivered for a fetch that was
  started.
\<close>
theorem fetches_bounded:
  "awaiting s + fetches s ms \<le>
     awaiting (run_state update s ms) + count_where is_QuoteFound ms"
proof (induction ms arbitrary: s)
  case Nil
  show ?case by simp
next
  case (Cons m ms)
  define started :: nat where "started = (if is_fetch (snd (update s m)) then 1 else 0)"
  define found :: nat where "found = (if is_QuoteFound m then 1 else 0)"
  have step: "awaiting s + started \<le> awaiting (fst (update s m)) + found"
    unfolding started_def found_def by (rule update_accounting)
  have rest: "awaiting (fst (update s m)) + fetches (fst (update s m)) ms \<le>
      awaiting (run_state update s (m # ms)) + count_where is_QuoteFound ms"
    using Cons.IH [of "fst (update s m)"] by simp
  have "fetches s (m # ms) = started + fetches (fst (update s m)) ms"
    and "count_where is_QuoteFound (m # ms) = found + count_where is_QuoteFound ms"
    by (simp_all add: started_def found_def)
  with step rest show ?case
    by linarith
qed

lemma state_after_Nil [simp]: "state_after s [] = s"
  by (simp add: state_after_def)

lemma state_after_snoc [simp]:
  "state_after s (ms @ [QuoteFound r]) = loaded_with r"
  "state_after s (ms @ [Search]) = Loading"
  by (simp_all add: state_after_def)

lemma starts_fetch_append [simp]:
  "i < length ms \<Longrightarrow> starts_fetch s (ms @ ns) i = starts_fetch s ms i"
  by (cases i) (simp_all add: starts_fetch_def nth_append)

lemma starts_fetch_last:
  "starts_fetch s (ms @ [m]) (length ms) \<longleftrightarrow> m = Search \<and> state_after s ms \<noteq> Loading"
  by (cases ms rule: rev_cases; cases "last ms")
    (auto simp: starts_fetch_def state_after_def nth_append)

lemma run_state_update: "run_state update s ms = state_after s ms"
proof (induction ms rule: rev_induct)
  case Nil
  show ?case by simp
next
  case (snoc m ms)
  show ?case by (cases m) simp_all
qed

lemma fetches_closed: "fetches s ms = count_where (starts_fetch s ms) [0..<length ms]"
proof (induction ms rule: rev_induct)
  case Nil
  show ?case by simp
next
  case (snoc m ms)
  have "count_where (starts_fetch s (ms @ [m])) [0..<length ms] =
      count_where (starts_fetch s ms) [0..<length ms]"
    by (rule count_where_cong) simp
  with snoc show ?case
    by (cases m) (simp_all add: run_state_update starts_fetch_last)
qed

text \<open>
  C8 (equivalence). A run of \<open>update\<close> has a closed form. The state after it is
  decided by the last message alone: \<open>Loading\<close> after a search request, the delivered
  result after a \<open>QuoteFound\<close>; the history before it leaves no trace. A fetch is started
  exactly at the search requests that do not follow another search request (the first
  message counts when the run does not begin in \<open>Loading\<close>); every other message
  starts nothing.
\<close>
theorem run_closed_form:
  "run update s ms =
     (state_after s ms,
      map (\<lambda>i. if starts_fetch s ms i then fetch else Command_none) [0..<length ms])"
proof (induction ms rule: rev_induct)
  case Nil
  show ?case by simp
next
  case (snoc m ms)
  then have "run_state update s ms = state_after s ms"
    and "run_outputs update s ms =
      map (\<lambda>i. if starts_fetch s ms i then fetch else Command_none) [0..<length ms]"
    by (simp_all add: run_eq)
  then show ?case
    by (cases m) (simp_all add: run_eq starts_fetch_last)
qed

end
