(* ===== verification/Quotes_View.thy ===== *)
theory Quotes_View
  imports Complex_Main Quotes_App
begin

text \<open>
  The presentation: \<^verbatim>\<open>Quotes::view\<close>, \<^verbatim>\<open>Quote::view\<close> and the helper \<^verbatim>\<open>button\<close> of
  src/src/main.rs.

  A widget tree is a value of the datatype \<open>Element\<close>: a text, a button, a column, a
  row or a container, each with the list of the builder calls the source makes on it, in
  the order it makes them (\<^verbatim>\<open>text(s).size(40)\<close> is \<open>Text s [Size 40]\<close>). Nothing of the
  widget library is modelled beyond that: no layout, no defaults, no drawing. What a
  tree offers to the user is read off it by three observations: \<open>texts\<close> (the strings
  of its text widgets, in order), \<open>buttons\<close> (label and message of every button that
  can be pressed) and \<open>messages\<close> (the messages its buttons send).

  The rendering rule of the specification is the function \<open>rendering\<close>; \<open>view\<close> is
  shown to implement it, to show the quote verbatim, and to offer only messages that
  \<open>update\<close> answers with a fetch. \<open>screen_state\<close> reads a screen back to the state
  it shows. The last theorem follows the buttons through whole runs: along a \<open>legal\<close>
  sequence of messages, in which only what is on screen is pressed, every press starts
  a fetch.
\<close>

datatype Length = Fill | Shrink

datatype Alignment = Start | Center | End

datatype Color = Color_from real real real

datatype 'm Attr =
    Size nat
  | Width Length
  | Height Length
  | Max_width nat
  | Spacing nat
  | Align_items Alignment
  | Style Color
  | Padding nat
  | On_press 'm
  | Center_x
  | Center_y

datatype 'm Element =
    Text String "'m Attr list"
  | Button String "'m Attr list"
  | Column "'m Element list" "'m Attr list"
  | Row "'m Element list" "'m Attr list"
  | Container "'m Element" "'m Attr list"

fun attrs :: "'m Element \<Rightarrow> 'm Attr list" where
  "attrs (Text s as) = as"
| "attrs (Button s as) = as"
| "attrs (Column es as) = as"
| "attrs (Row es as) = as"
| "attrs (Container e as) = as"

fun call :: "'m Element \<Rightarrow> 'm Attr \<Rightarrow> 'm Element" where
  "call (Text s as) a = Text s (as @ [a])"
| "call (Button s as) a = Button s (as @ [a])"
| "call (Column es as) a = Column es (as @ [a])"
| "call (Row es as) a = Row es (as @ [a])"
| "call (Container e as) a = Container e (as @ [a])"

definition button :: "String \<Rightarrow> Message Element" where
  "button label = call (Button label []) (Padding 10)"

definition Quote_view :: "Quote \<Rightarrow> Message Element" where
  "Quote_view self =
     Row
       [Column
          [Row
             [Text (content self) [Size 30, Width Fill],
              Text (''-'' @ author self) [Size 20, Style (Color_from 0.5 0.5 0.5)]]
             [Align_items Center, Spacing 20]]
          [Spacing 20]]
       [Spacing 20, Align_items Center]"

definition view :: "Quotes \<Rightarrow> Message Element" where
  "view self =
     (let content =
        (case self of
           Loading \<Rightarrow>
             Column [Text ''Searching for Quotes...'' [Size 40]] [Width Shrink]
         | Loaded q \<Rightarrow>
             Column
               [Quote_view q, call (button ''Keep searching!'') (On_press Search)]
               [Max_width 500, Spacing 20, Align_items End]
         | Errored \<Rightarrow>
             Column
               [Text ''Whoops! Something went wrong...'' [Size 40],
                call (button ''Try again'') (On_press Search)]
               [Spacing 20, Align_items End])
      in Container content [Width Fill, Height Fill, Center_x, Center_y])"

subsection \<open>What a widget tree offers\<close>

fun pressed :: "'m Attr \<Rightarrow> 'm list" where
  "pressed (On_press m) = [m]"
| "pressed a = []"

fun texts :: "'m Element \<Rightarrow> String list" where
  "texts (Text s as) = [s]"
| "texts (Button s as) = []"
| "texts (Column es as) = concat (map texts es)"
| "texts (Row es as) = concat (map texts es)"
| "texts (Container e as) = texts e"

fun buttons :: "'m Element \<Rightarrow> (String \<times> 'm) list" where
  "buttons (Text s as) = []"
| "buttons (Button s as) = map (Pair s) (concat (map pressed as))"
| "buttons (Column es as) = concat (map buttons es)"
| "buttons (Row es as) = concat (map buttons es)"
| "buttons (Container e as) = buttons e"

definition messages :: "'m Element \<Rightarrow> 'm list" where
  "messages e = map snd (buttons e)"

subsection \<open>The specification's rendering rule\<close>

fun rendering :: "Quotes \<Rightarrow> String list \<times> (String \<times> Message) list" where
  "rendering Loading = ([''Searching for Quotes...''], [])"
| "rendering (Loaded q) = ([content q, ''-'' @ author q], [(''Keep searching!'', Search)])"
| "rendering Errored = ([''Whoops! Something went wrong...''], [(''Try again'', Search)])"

text \<open>
  Reading a screen back: the state that a screen built by \<open>view\<close> shows, from
  nothing but its texts and the buttons that can be pressed.
\<close>
definition screen_state :: "Message Element \<Rightarrow> Quotes option" where
  "screen_state e =
     (case (texts e, buttons e) of
        ([t], []) \<Rightarrow> Some Loading
      | ([t], [b]) \<Rightarrow> Some Errored
      | ([c, a], [b]) \<Rightarrow> Some (Loaded \<lparr>content = c, author = tl a\<rparr>)
      | _ \<Rightarrow> None)"

subsection \<open>What the user can do\<close>

text \<open>
  A sequence of messages is \<open>legal\<close> from a state when each of them is either the
  result of a fetch or a press of a button that is on the screen when its turn comes:
  the messages \<open>update\<close> receives when every press is delivered before the next one is
  made.
\<close>
fun legal :: "Quotes \<Rightarrow> Message list \<Rightarrow> bool" where
  "legal s [] = True"
| "legal s (m # ms) =
     ((is_QuoteFound m \<or> m \<in> set (messages (view s))) \<and> legal (fst (update s m)) ms)"

lemmas view_defs [quotes_defs] = button_def Quote_view_def view_def messages_def

subsection \<open>Observations of the program's widgets\<close>

lemma attrs_call [simp]: "attrs (call e a) = attrs e @ [a]"
  by (cases e) simp_all

lemma texts_call [simp]: "texts (call e a) = texts e"
  by (cases e) simp_all

lemma button_simps [simp]:
  "texts (button l) = []"
  "buttons (button l) = []"
  "buttons (call (button l) (On_press m)) = [(l, m)]"
  "attrs (button l) = [Padding 10]"
  by (simp_all add: button_def)

lemma Quote_view_simps [simp]:
  "texts (Quote_view q) = [content q, ''-'' @ author q]"
  "buttons (Quote_view q) = []"
  by (simp_all add: Quote_view_def)

lemma view_simps:
  "texts (view Loading) = [''Searching for Quotes...'']"
  "texts (view (Loaded q)) = [content q, ''-'' @ author q]"
  "texts (view Errored) = [''Whoops! Something went wrong...'']"
  "buttons (view Loading) = []"
  "buttons (view (Loaded q)) = [(''Keep searching!'', Search)]"
  "buttons (view Errored) = [(''Try again'', Search)]"
  by (simp_all add: view_def)

lemma messages_view [simp]: "messages (view s) = (if s = Loading then [] else [Search])"
  by (cases s) (simp_all add: messages_def view_simps)

subsection \<open>Properties of \<open>view\<close>\<close>

text \<open>
  C5 (refinement). \<open>view\<close> implements the rendering rule of the specification: in
  every state the texts on screen and the buttons that can be pressed, with their
  labels and messages, are those of the rule.
\<close>
theorem view_refines_rendering:
  "(texts (view s), buttons (view s)) = rendering s"
  by (cases s) (simp_all add: view_simps)

text \<open>
  C9 (roundtrip). The screen determines the state: reading back the texts and the
  buttons of the screen of a state gives that state, the loaded quote with both of its
  strings unchanged. So two states with the same screen are equal.
\<close>
theorem screen_roundtrip:
  "screen_state (view s) = Some s"
  by (cases s) (simp_all add: screen_state_def view_simps)

text \<open>
  C6 (safety). Whatever the user can press on the screen of a state, \<open>update\<close> in
  that state answers it by going to \<open>Loading\<close> and starting the one fetch: the
  branch of \<open>update\<close> that ignores \<open>Search\<close> is never taken by a press on the
  current screen.
\<close>
theorem view_message_starts_fetch:
  assumes "m \<in> set (messages (view s))"
  shows "update s m = (Loading, Command_perform Quote_search Message_QuoteFound)"
  using assms by (cases s) (simp_all add: messages_def view_simps fetch_def)

theorem view_message_starts_fetch_witness:
  "Search \<in> set (messages (view Errored)) \<and>
   update Errored Search = (Loading, Command_perform Quote_search Message_QuoteFound)"
proof -
  have press: "Search \<in> set (messages (view Errored))"
    by (simp add: messages_def view_simps)
  from press view_message_starts_fetch [OF press] show ?thesis
    by simp
qed

text \<open>
  C21 (safety). No press is wasted: along a legal sequence of messages, from any
  state, \<open>update\<close> answers every \<open>Search\<close> with a fetch and every fetch result with
  no command. The branch of \<open>update\<close> that ignores a \<open>Search\<close> is taken only for
  presses that were queued behind another press.
\<close>
theorem presses_never_wasted:
  assumes "legal s ms"
  shows "run_outputs update s ms = map (\<lambda>m. if m = Search then fetch else Command_none) ms"
  using assms
proof (induction ms arbitrary: s)
  case Nil
  show ?case by simp
next
  case (Cons m ms)
  then show ?case
    by (cases m) (auto split: if_splits)
qed

theorem presses_never_wasted_witness:
  "legal Errored [Search, QuoteFound (Ok (quote_of wilde)), Search] \<and>
   run_outputs update Errored [Search, QuoteFound (Ok (quote_of wilde)), Search] =
     [fetch, Command_none, fetch]"
proof -
  have ok: "legal Errored [Search, QuoteFound (Ok (quote_of wilde)), Search]"
    by (simp add: loaded_with_def)
  from ok presses_never_wasted [OF ok] show ?thesis
    by simp
qed

end
