(* ===== verification/Quotes_Runtime.thy ===== *)
theory Quotes_Runtime
  imports Quotes_View
begin

text \<open>
  The run loop that drives the application: \<^verbatim>\<open>main\<close> of src/src/main.rs hands the
  program to the GUI library, which owns the state, calls \<^verbatim>\<open>new\<close> once, and from
  then on passes every message to \<^verbatim>\<open>update\<close>, performs the commands it returns in
  the background, and redraws with \<^verbatim>\<open>view\<close> and \<^verbatim>\<open>title\<close>. The library is not part
  of the repository; the loop is modelled from the specification's concurrency section,
  around the program's own \<open>new\<close>, \<open>update\<close>, \<open>view\<close>, \<open>title\<close> and \<open>search\<close>.

  The state \<open>Sys\<close> of the whole system is the application state, the window (widget
  tree and title), the inbox of messages not yet passed to \<open>update\<close>, the tasks still
  running and the record of what the tasks did to the world. It moves by three
  actions:
  \<^item> \<open>Press m\<close>: the user presses a button of the window that sends \<open>m\<close>; the message
    joins the inbox. Several presses may be queued before the loop looks at the first.
  \<^item> \<open>Complete i net\<close>: the \<open>i\<close>-th running task finishes against the network
    \<open>net\<close>; its result, wrapped as a message, joins the inbox.
  \<^item> \<open>Deliver\<close>: the loop passes the oldest message to \<open>update\<close>, starts the command
    it returns and redraws.
  \<open>fire\<close> is the executable step function, \<open>step\<close> the same steps as an inductive
  relation, \<open>reachable\<close> the states the program can be in.

  The invariant \<open>sys_inv\<close> says that exactly one fetch or fetch result is on its way
  when the state is \<open>Loading\<close> and none otherwise, that the window shows the current
  state, and that the world has seen only requests to the fixed endpoint. The
  theorems derive from it that fetches never overlap, that nothing but the delivery of
  stale search requests can happen while a fetch does not complete, that the program
  is never stuck, that a quote can always be reached, and that every request but the
  first answers a press of the user.
\<close>

record 'e Sys =
  state :: Quotes
  window :: "Message Element"
  window_title :: String
  inbox :: "Message list"
  tasks :: "(Future \<times> Mapper) list"
  io :: "'e Io"

datatype 'e Action =
    Press Message
  | Complete nat "'e Network"
  | Deliver

fun perform :: "Future \<Rightarrow> 'e Network \<Rightarrow> 'e Io \<Rightarrow> (Error + Quote) \<times> 'e Io" where
  "perform Quote_search net w = search net w"

fun spawn :: "Command \<Rightarrow> (Future \<times> Mapper) list" where
  "spawn Command_none = []"
| "spawn (Command_perform f k) = [(f, k)]"

definition boot :: "'e Io \<Rightarrow> 'e Sys" where
  "boot w =
     (case new () of (st, c) \<Rightarrow>
        \<lparr>state = st, window = view st, window_title = title st,
         inbox = [], tasks = spawn c, io = w\<rparr>)"

definition main :: "'e Sys" where
  "main = boot \<lparr>requests = [], stderr = []\<rparr>"

fun fire :: "'e Sys \<Rightarrow> 'e Action \<Rightarrow> 'e Sys option" where
  "fire s (Press m) =
     (if m \<in> set (messages (window s)) then Some (s\<lparr>inbox := inbox s @ [m]\<rparr>) else None)"
| "fire s (Complete i net) =
     (if i < length (tasks s) then
        (case tasks s ! i of (f, k) \<Rightarrow>
           (case perform f net (io s) of (r, w) \<Rightarrow>
              Some (s\<lparr>tasks := take i (tasks s) @ drop (Suc i) (tasks s),
                      inbox := inbox s @ [apply_mapper k r],
                      io := w\<rparr>)))
      else None)"
| "fire s Deliver =
     (case inbox s of
        [] \<Rightarrow> None
      | m # ms \<Rightarrow>
          (case update (state s) m of (st, c) \<Rightarrow>
             Some (s\<lparr>state := st, window := view st, window_title := title st,
                     inbox := ms, tasks := tasks s @ spawn c\<rparr>)))"

inductive step :: "'e Sys \<Rightarrow> 'e Action \<Rightarrow> 'e Sys \<Rightarrow> bool" where
  press:
    "m \<in> set (messages (window s)) \<Longrightarrow>
     step s (Press m) (s\<lparr>inbox := inbox s @ [m]\<rparr>)"
| complete:
    "i < length (tasks s) \<Longrightarrow> tasks s ! i = (f, k) \<Longrightarrow> perform f net (io s) = (r, w) \<Longrightarrow>
     step s (Complete i net)
       (s\<lparr>tasks := take i (tasks s) @ drop (Suc i) (tasks s),
          inbox := inbox s @ [apply_mapper k r],
          io := w\<rparr>)"
| deliver:
    "inbox s = m # ms \<Longrightarrow> update (state s) m = (st, c) \<Longrightarrow>
     step s Deliver
       (s\<lparr>state := st, window := view st, window_title := title st,
          inbox := ms, tasks := tasks s @ spawn c\<rparr>)"

inductive reachable :: "'e Sys \<Rightarrow> bool" where
  start: "reachable main"
| next_state: "reachable s \<Longrightarrow> step s a t \<Longrightarrow> reachable t"

inductive_simps step_simps:
  "step s (Press m) t" "step s (Complete i net) t" "step s Deliver t"

subsection \<open>The invariant\<close>

definition in_flight :: "'e Sys \<Rightarrow> nat" where
  "in_flight s = length (tasks s) + count_where is_QuoteFound (inbox s)"

definition flight_inv :: "'e Sys \<Rightarrow> bool" where
  "flight_inv s \<longleftrightarrow> in_flight s = awaiting (state s)"

definition window_inv :: "'e Sys \<Rightarrow> bool" where
  "window_inv s \<longleftrightarrow> window s = view (state s) \<and> window_title s = title (state s)"

definition io_inv :: "'e Sys \<Rightarrow> bool" where
  "io_inv s \<longleftrightarrow>
     list_all (\<lambda>u. u = url) (requests (io s)) \<and>
     length (stderr (io s)) \<le> length (requests (io s))"

definition sys_inv :: "'e Sys \<Rightarrow> bool" where
  "sys_inv s \<longleftrightarrow> flight_inv s \<and> window_inv s \<and> io_inv s"

fun is_Press :: "'e Action \<Rightarrow> bool" where
  "is_Press (Press m) = True"
| "is_Press a = False"

fun is_Complete :: "'e Action \<Rightarrow> bool" where
  "is_Complete (Complete i net) = True"
| "is_Complete a = False"

definition demand :: "'e Sys \<Rightarrow> nat" where
  "demand s =
     length (requests (io s)) + length (tasks s) + count_where (\<lambda>m. m = Search) (inbox s)"

definition showing :: "Quotes \<Rightarrow> (Future \<times> Mapper) list \<Rightarrow> 'e Io \<Rightarrow> 'e Sys" where
  "showing st ts w =
     \<lparr>state = st, window = view st, window_title = title st, inbox = [], tasks = ts, io = w\<rparr>"

definition quiet :: "'e Sys \<Rightarrow> bool" where
  "quiet s \<longleftrightarrow> inbox s = [] \<and> tasks s = []"

lemmas runtime_defs [quotes_defs] =
  boot_def main_def in_flight_def flight_inv_def window_inv_def io_inv_def sys_inv_def demand_def

subsection \<open>The step relation and the step function agree\<close>

lemma step_iff_fire: "step s a t \<longleftrightarrow> fire s a = Some t"
  by (cases a) (auto simp: step_simps split: if_splits list.splits prod.splits)

lemmas step_fire = step_iff_fire [THEN iffD1]

lemmas fire_step = step_iff_fire [THEN iffD2]

lemma reachable_exec: "reachable s \<Longrightarrow> exec fire s as = Some t \<Longrightarrow> reachable t"
  by (rule exec_invariant [where P = reachable]) (auto intro: reachable.next_state fire_step)

lemma exec_reachable: "exec fire main as = Some t \<Longrightarrow> reachable t"
  by (rule reachable_exec [OF reachable.start])

lemma reachable_imp_exec: "reachable s \<Longrightarrow> \<exists>as. exec fire main as = Some s"
proof (induction rule: reachable.induct)
  case start
  have "exec fire main [] = Some main"
    by simp
  then show ?case ..
next
  case (next_state s a t)
  then obtain as where "exec fire main as = Some s"
    by blast
  with next_state.hyps(2) have "exec fire main (as @ [a]) = Some t"
    by (simp add: exec_snoc step_fire)
  then show ?case ..
qed

subsection \<open>Tasks and messages\<close>

lemma perform_eq [simp]: "perform f net w = search net w"
  by (cases f) simp

lemma apply_mapper_eq [simp]: "apply_mapper k r = QuoteFound r"
  by (cases k) simp

lemma spawn_simps [simp]:
  "spawn fetch = [(Quote_search, Message_QuoteFound)]"
  "length (spawn c) = (if is_fetch c then 1 else 0)"
  by (simp add: fetch_def, cases c) simp_all

lemma fire_Deliver_eq:
  "inbox s = m # ms \<Longrightarrow>
   fire s Deliver =
     Some (s\<lparr>state := fst (update (state s) m), window := view (fst (update (state s) m)),
             window_title := title (fst (update (state s) m)), inbox := ms,
             tasks := tasks s @ spawn (snd (update (state s) m))\<rparr>)"
  by (simp split: prod.split)

lemma fire_Deliver_Nil [simp]: "inbox s = [] \<Longrightarrow> fire s Deliver = None"
  by simp

lemma fire_Complete_eq:
  "i < length (tasks s) \<Longrightarrow>
   fire s (Complete i net) =
     Some (s\<lparr>tasks := take i (tasks s) @ drop (Suc i) (tasks s),
             inbox := inbox s @ [QuoteFound (fst (search net (io s)))],
             io := snd (search net (io s))\<rparr>)"
  by (simp split: prod.split)

lemma pressed_message:
  assumes "window_inv s" and "m \<in> set (messages (window s))"
  shows "m = Search" and "state s \<noteq> Loading"
  using assms by (cases "state s"; simp add: window_inv_def messages_def view_simps)+

subsection \<open>Every action keeps the invariant\<close>

lemma sys_inv_main: "sys_inv main"
  by (simp add: runtime_defs new_def)

lemma fire_Press_inv:
  assumes "sys_inv s" and "fire s (Press m) = Some t"
  shows "sys_inv t"
proof -
  from assms have m: "m \<in> set (messages (window s))" and t: "t = s\<lparr>inbox := inbox s @ [m]\<rparr>"
    by (auto split: if_splits)
  from assms(1) have "window_inv s"
    by (simp add: sys_inv_def)
  then have "m = Search"
    using m by (rule pressed_message)
  with assms(1) t show ?thesis
    by (simp add: runtime_defs)
qed

lemma fire_Complete_inv:
  assumes "sys_inv s" and "fire s (Complete i net) = Some t"
  shows "sys_inv t"
proof -
  from assms(2) have i: "i < length (tasks s)"
    and t: "t = s\<lparr>tasks := take i (tasks s) @ drop (Suc i) (tasks s),
        inbox := inbox s @ [QuoteFound (fst (search net (io s)))],
        io := snd (search net (io s))\<rparr>"
    by (auto split: if_splits prod.splits)
  from i have "Suc (length (tasks t)) = length (tasks s)"
    unfolding t by simp
  moreover have "count_where is_QuoteFound (inbox t) = Suc (count_where is_QuoteFound (inbox s))"
    unfolding t by simp
  ultimately have "in_flight t = in_flight s"
    by (simp add: in_flight_def)
  moreover have "state t = state s" "window t = window s" "window_title t = window_title s"
    unfolding t by simp_all
  moreover from assms(1) have "io_inv t"
    unfolding t using search_io_stderr_length [of net "io s"]
    by (simp add: sys_inv_def io_inv_def)
  ultimately show ?thesis
    using assms(1) by (simp add: sys_inv_def flight_inv_def window_inv_def)
qed

lemma fire_Deliver_inv:
  assumes "sys_inv s" and "fire s Deliver = Some t"
  shows "sys_inv t"
proof -
  from assms(2) obtain m ms where inbox: "inbox s = m # ms"
    and t: "t = s\<lparr>state := fst (update (state s) m), window := view (fst (update (state s) m)),
        window_title := title (fst (update (state s) m)), inbox := ms,
        tasks := tasks s @ spawn (snd (update (state s) m))\<rparr>"
    by (auto split: list.splits prod.splits)
  from assms(1) have flight: "length (tasks s) + count_where is_QuoteFound (m # ms) = awaiting (state s)"
    by (simp add: sys_inv_def flight_inv_def in_flight_def inbox)
  have "flight_inv t"
  proof (cases rule: update_cases [of m "state s"])
    case (found r)
    with flight have "length (tasks s) + count_where is_QuoteFound ms = 0"
      using awaiting_le_1 [of "state s"] by (simp del: add_is_0 length_0_conv)
    with found show ?thesis
      by (simp add: flight_inv_def in_flight_def t)
  next
    case ignored
    with flight show ?thesis
      by (simp add: flight_inv_def in_flight_def t)
  next
    case started
    with flight show ?thesis
      by (simp add: flight_inv_def in_flight_def t awaiting_def)
  qed
  with assms(1) show ?thesis
    by (simp add: sys_inv_def window_inv_def io_inv_def t)
qed

lemma fire_inv [quotes_inv]: "sys_inv s \<Longrightarrow> fire s a = Some t \<Longrightarrow> sys_inv t"
  by (cases a) (auto intro: fire_Press_inv fire_Complete_inv fire_Deliver_inv)

lemma step_inv [quotes_inv]: "sys_inv s \<Longrightarrow> step s a t \<Longrightarrow> sys_inv t"
  by (auto intro: fire_inv step_fire)

lemma reachable_inv: "reachable s \<Longrightarrow> sys_inv s"
  by (induction rule: reachable.induct) (auto intro: sys_inv_main step_inv)

subsection \<open>Fetch cycles, step by step\<close>

lemma main_eq: "main = showing Loading [(Quote_search, Message_QuoteFound)] \<lparr>requests = [], stderr = []\<rparr>"
  by (simp add: main_def boot_def new_def showing_def)

lemma showing_simps [simp]:
  "state (showing st ts w) = st"
  "window (showing st ts w) = view st"
  "window_title (showing st ts w) = title st"
  "inbox (showing st ts w) = []"
  "tasks (showing st ts w) = ts"
  "io (showing st ts w) = w"
  by (simp_all add: showing_def)

lemma quiet_window_inv_showing:
  "window_inv s \<Longrightarrow> inbox s = [] \<Longrightarrow> s = showing (state s) (tasks s) (io s)"
  by (simp add: showing_def window_inv_def)

lemma fire_Complete_showing:
  "fire (showing st [(f, k)] w) (Complete 0 net) =
     Some ((showing st [] (snd (search net w)))\<lparr>inbox := [QuoteFound (fst (search net w))]\<rparr>)"
  by (simp add: showing_def split: prod.split)

lemma fire_Deliver_found:
  "fire ((showing st [] w)\<lparr>inbox := [QuoteFound r]\<rparr>) Deliver = Some (showing (loaded_with r) [] w)"
  by (simp add: showing_def)

lemma fire_Press_showing:
  "st \<noteq> Loading \<Longrightarrow>
   fire (showing st [] w) (Press Search) = Some ((showing st [] w)\<lparr>inbox := [Search]\<rparr>)"
  by (cases st) (simp_all add: showing_def messages_def view_simps)

lemma fire_Deliver_Search:
  "st \<noteq> Loading \<Longrightarrow>
   fire ((showing st [] w)\<lparr>inbox := [Search]\<rparr>) Deliver =
     Some (showing Loading [(Quote_search, Message_QuoteFound)] w)"
  by (simp add: showing_def)

text \<open>A whole cycle from a state that waits for its one fetch, and a press that starts one.\<close>

lemma exec_cycle:
  "exec fire (showing st [(f, k)] w) [Complete 0 net, Deliver] =
     Some (showing (loaded_with (fst (search net w))) [] (snd (search net w)))"
  by (simp add: fire_Complete_showing fire_Deliver_found del: fire.simps)

lemma exec_press:
  "st \<noteq> Loading \<Longrightarrow>
   exec fire (showing st [] w) [Press Search, Deliver] =
     Some (showing Loading [(Quote_search, Message_QuoteFound)] w)"
  by (simp add: fire_Press_showing fire_Deliver_Search del: fire.simps)

lemma exec_drain:
  "\<exists>t. exec fire s (replicate (length (inbox s)) Deliver) = Some t \<and> inbox t = []"
proof (induction "inbox s" arbitrary: s)
  case Nil
  then show ?case by simp
next
  case (Cons m ms)
  from Cons.hyps(2) [symmetric] obtain u where u: "fire s Deliver = Some u" and "inbox u = ms"
    by (simp add: fire_Deliver_eq del: fire.simps)
  with Cons.hyps(1) [of u] obtain t
    where "exec fire u (replicate (length (inbox u)) Deliver) = Some t" and "inbox t = []"
    by auto
  with u \<open>inbox u = ms\<close> Cons.hyps(2) [symmetric] show ?case
    by simp
qed

lemma reachable_after_fetch:
  "reachable (showing (loaded_with (fst (search net \<lparr>requests = [], stderr = []\<rparr>))) []
     (snd (search net \<lparr>requests = [], stderr = []\<rparr>)))"
  by (rule exec_reachable [where as = "[Complete 0 net, Deliver]"])
    (simp only: main_eq exec_cycle)

lemma reachable_stale_Search:
  "reachable ((showing Loading [(Quote_search, Message_QuoteFound)]
       \<lparr>requests = [url], stderr = [e]\<rparr>)\<lparr>inbox := [Search]\<rparr>)"
proof -
  have "exec fire main [Complete 0 (failing e), Deliver, Press Search, Press Search, Deliver] =
      Some ((showing Loading [(Quote_search, Message_QuoteFound)]
        \<lparr>requests = [url], stderr = [e]\<rparr>)\<lparr>inbox := [Search]\<rparr>)"
    by (simp add: main_eq showing_def loaded_with_def messages_def view_simps title_def)
  then show ?thesis
    by (rule exec_reachable)
qed

lemma sys_inv_running:
  assumes "sys_inv s" and "tasks s \<noteq> []"
  shows "state s = Loading" and "count_where is_QuoteFound (inbox s) = 0"
    and "window s = view Loading" and "window_title s = title Loading"
proof -
  from assms(1) have flight: "length (tasks s) + count_where is_QuoteFound (inbox s) = awaiting (state s)"
    and window: "window s = view (state s)" "window_title s = title (state s)"
    by (simp_all add: sys_inv_def flight_inv_def in_flight_def window_inv_def)
  from flight assms(2) show "state s = Loading" and "count_where is_QuoteFound (inbox s) = 0"
    by (cases "tasks s"; auto simp: awaiting_def split: if_splits)+
  with window show "window s = view Loading" and "window_title s = title Loading"
    by simp_all
qed

lemma fire_Deliver_stale:
  assumes "window_inv s" and "state s = Loading" and "inbox s = Search # ms"
  shows "fire s Deliver = Some (s\<lparr>inbox := ms\<rparr>)"
  using assms by (cases s) (simp add: window_inv_def fire_Deliver_eq del: fire.simps)

lemma fire_while_running:
  assumes "sys_inv s" and "tasks s \<noteq> []" and "fire s a = Some t" and "\<not> is_Complete a"
  shows "a = Deliver \<and> t = s\<lparr>inbox := tl (inbox s)\<rparr>"
proof (cases a)
  case (Press m)
  with assms(3) sys_inv_running(3) [OF assms(1,2)] show ?thesis
    by (simp add: messages_def view_simps)
next
  case (Complete i net)
  with assms(4) show ?thesis by simp
next
  case Deliver
  with assms(3) obtain m ms where inbox: "inbox s = m # ms"
    by (auto split: list.splits)
  with sys_inv_running(2) [OF assms(1,2)] have "m = Search"
    by (cases m) (simp_all split: if_splits)
  with inbox Deliver assms sys_inv_running(1) [OF assms(1,2)] show ?thesis
    by (simp add: fire_Deliver_stale sys_inv_def del: fire.simps)
qed

subsection \<open>Properties of the run loop\<close>

text \<open>
  C7 (invariant). In every state the program can reach, the running fetches and the
  fetch results waiting in the inbox number exactly one when the state is \<open>Loading\<close>
  and zero otherwise. So fetches never overlap: at most one task runs at any time, only
  while the state is \<open>Loading\<close>, and while it runs no fetch result is waiting.
\<close>
theorem single_flight:
  assumes "reachable s"
  shows "length (tasks s) + count_where is_QuoteFound (inbox s) =
    (if state s = Loading then 1 else 0)"
  using reachable_inv [OF assms]
  by (simp add: sys_inv_def flight_inv_def in_flight_def awaiting_def)

theorem single_flight_witness:
  "reachable (main :: unit Sys) \<and>
   length (tasks (main :: unit Sys)) + count_where is_QuoteFound (inbox (main :: unit Sys)) = 1"
  using single_flight [of "main :: unit Sys"] reachable.start [where ?'e = unit]
  by (simp add: main_eq)

text \<open>
  C17 (safety). A fetch that never completes keeps the program where it is: from a
  reachable state with a running fetch, an execution without a completion consists of
  deliveries only, at most as many as the inbox holds messages; each of them drops a
  stale \<open>Search\<close>, and the state stays \<open>Loading\<close> with the same task, the same window
  (which has no button) and the same world. There is no timeout and no way to cancel.
\<close>
theorem hung_fetch:
  assumes "reachable s" and "tasks s \<noteq> []" and "exec fire s as = Some t"
    and "count_where is_Complete as = 0"
  shows "state t = Loading \<and> buttons (window t) = [] \<and>
    t = s\<lparr>inbox := drop (length as) (inbox s)\<rparr> \<and>
    as = replicate (length as) Deliver \<and> length as \<le> length (inbox s)"
  using assms
proof (induction as arbitrary: s)
  case Nil
  from Nil.prems(1,2) show ?case
    using Nil.prems(3) by (simp add: sys_inv_running reachable_inv view_simps)
next
  case (Cons a as)
  from Cons.prems(3) obtain u where u: "fire s a = Some u" and rest: "exec fire u as = Some t"
    by (rule exec_ConsE)
  from Cons.prems(4) have a: "\<not> is_Complete a" and as: "count_where is_Complete as = 0"
    by (simp_all split: if_splits)
  from Cons.prems(1,2) u a have step: "a = Deliver" "u = s\<lparr>inbox := tl (inbox s)\<rparr>"
    using fire_while_running [OF reachable_inv] by blast+
  from u step(1) have "inbox s \<noteq> []"
    by (auto split: list.splits)
  moreover from Cons.prems(1) u have "reachable u"
    by (blast intro: reachable.next_state fire_step)
  moreover from step(2) Cons.prems(2) have "tasks u \<noteq> []"
    by simp
  ultimately show ?case
    using Cons.IH [OF _ _ rest as] step by (cases "inbox s") (auto simp add: drop_Suc)
qed

theorem hung_fetch_witness:
  "reachable ((showing Loading [(Quote_search, Message_QuoteFound)]
       \<lparr>requests = [url], stderr = [()]\<rparr>)\<lparr>inbox := [Search]\<rparr>) \<and>
   exec fire ((showing Loading [(Quote_search, Message_QuoteFound)]
       \<lparr>requests = [url], stderr = [()]\<rparr>)\<lparr>inbox := [Search]\<rparr>) [Deliver] =
     Some (showing Loading [(Quote_search, Message_QuoteFound)] \<lparr>requests = [url], stderr = [()]\<rparr>) \<and>
   buttons (window (showing Loading [(Quote_search, Message_QuoteFound)]
       \<lparr>requests = [url], stderr = [()]\<rparr> :: unit Sys)) = []"
  using hung_fetch
      [of "(showing Loading [(Quote_search, Message_QuoteFound)]
         \<lparr>requests = [url], stderr = [()]\<rparr>)\<lparr>inbox := [Search]\<rparr>" "[Deliver]"
        "showing Loading [(Quote_search, Message_QuoteFound)] \<lparr>requests = [url], stderr = [()]\<rparr>"]
    reachable_stale_Search [of "()"]
  by (simp add: showing_def view_simps)

subsection \<open>Requests answer presses\<close>

lemma demand_step:
  assumes "fire s a = Some t"
  shows "demand t \<le> demand s + (if is_Press a then 1 else 0)"
proof (cases a)
  case (Press m)
  with assms show ?thesis
    by (auto simp: demand_def split: if_splits)
next
  case (Complete i net)
  with assms have "i < length (tasks s)"
    by (simp split: if_splits)
  with assms Complete show ?thesis
    by (auto simp: fire_Complete_eq demand_def simp del: fire.simps)
next
  case Deliver
  with assms obtain m ms where "inbox s = m # ms"
    by (auto split: list.splits)
  with assms Deliver show ?thesis
    by (cases m) (auto simp: fire_Deliver_eq demand_def simp del: fire.simps)
qed

text \<open>
  C19 (safety). The program never asks the network on its own, and asks the fixed
  endpoint only: over any execution from the start, the requests sent and the fetches
  still running together number at most one more than the presses of the user (the one
  more is the fetch of \<open>new\<close>); every request went to the endpoint; and standard error
  holds at most one line per request.
\<close>
theorem requests_answer_presses:
  fixes s :: "'e Sys"
  assumes "exec fire main as = Some s"
  shows "length (requests (io s)) + length (tasks s) \<le> 1 + count_where is_Press as \<and>
    list_all (\<lambda>u. u = ''https://api.quotable.io/random'') (requests (io s)) \<and>
    length (stderr (io s)) \<le> length (requests (io s))"
proof -
  from assms have "demand s \<le> demand (main :: 'e Sys) + count_where is_Press as"
    by (rule exec_potential [where P = "\<lambda>s. True" and pot = demand and up = is_Press])
      (simp_all add: demand_step)
  moreover from assms have "io_inv s"
    by (simp add: exec_reachable reachable_inv [unfolded sys_inv_def])
  ultimately show ?thesis
    by (simp add: demand_def main_eq io_inv_def url_def)
qed

theorem requests_answer_presses_witness:
  "exec fire (main :: unit Sys) [Complete 0 (failing ()), Deliver, Press Search, Deliver] =
     Some (showing Loading [(Quote_search, Message_QuoteFound)] \<lparr>requests = [url], stderr = [()]\<rparr>) \<and>
   length (requests (io (showing Loading [(Quote_search, Message_QuoteFound)]
       \<lparr>requests = [url], stderr = [()]\<rparr>))) +
     length (tasks (showing Loading [(Quote_search, Message_QuoteFound)]
       \<lparr>requests = [url], stderr = [()]\<rparr>)) \<le>
     1 + count_where is_Press [Complete 0 (failing ()), Deliver, Press Search, Deliver] \<and>
   list_all (\<lambda>u. u = ''https://api.quotable.io/random'')
     (requests (io (showing Loading [(Quote_search, Message_QuoteFound)]
       \<lparr>requests = [url], stderr = [()]\<rparr>)))"
proof -
  have run: "exec fire (main :: unit Sys) [Complete 0 (failing ()), Deliver, Press Search, Deliver] =
      Some (showing Loading [(Quote_search, Message_QuoteFound)] \<lparr>requests = [url], stderr = [()]\<rparr>)"
    by (simp add: main_eq showing_def loaded_with_def messages_def view_simps title_def)
  from run requests_answer_presses [OF run] show ?thesis
    by (simp add: url_def)
qed

subsection \<open>Progress\<close>

lemma quiet_cases:
  assumes "sys_inv s" and "inbox s = []"
  obtains (waiting) "state s = Loading" "s = showing Loading [(Quote_search, Message_QuoteFound)] (io s)"
  | (resting) "state s \<noteq> Loading" "s = showing (state s) [] (io s)"
proof -
  from assms have shape: "s = showing (state s) (tasks s) (io s)"
    and flight: "length (tasks s) = awaiting (state s)"
    by (simp_all add: sys_inv_def flight_inv_def in_flight_def quiet_window_inv_showing)
  show thesis
  proof (cases "state s = Loading")
    case True
    with flight obtain f k where "tasks s = [(f, k)]"
      by (cases "tasks s") auto
    moreover have "f = Quote_search" "k = Message_QuoteFound"
      by (cases f, simp) (cases k, simp)
    ultimately show thesis
      using True shape by (auto intro: waiting)
  next
    case False
    with flight have "tasks s = []"
      by (simp add: awaiting_def)
    with False shape show thesis
      by (auto intro: resting)
  qed
qed

lemma exec_to_Loaded:
  assumes "sys_inv s" and "inbox s = []"
  shows "\<exists>as t. length as \<le> 4 \<and> exec fire s as = Some t \<and> state t = Loaded q \<and> quiet t"
  using assms
proof (cases rule: quiet_cases)
  case waiting
  let ?as = "[Complete 0 (answering (entry_of q)), Deliver]"
  let ?t = "showing (Loaded q) [] ((io s)\<lparr>requests := requests (io s) @ [url]\<rparr>)"
  have "exec fire (showing Loading [(Quote_search, Message_QuoteFound)] (io s)) ?as = Some ?t"
    by (simp add: exec_cycle loaded_with_def del: exec.simps fire.simps)
  with waiting(2) have "exec fire s ?as = Some ?t"
    by simp
  moreover have "length ?as \<le> 4" "state ?t = Loaded q" "quiet ?t"
    by (simp_all add: quiet_def)
  ultimately show ?thesis
    by blast
next
  case resting
  let ?as = "[Press Search, Deliver] @ [Complete 0 (answering (entry_of q)), Deliver]"
  let ?t = "showing (Loaded q) [] ((io s)\<lparr>requests := requests (io s) @ [url]\<rparr>)"
  from resting(1) have "exec fire (showing (state s) [] (io s)) ?as = Some ?t"
    by (intro exec_append_Some [OF exec_press])
      (simp_all add: exec_cycle loaded_with_def del: exec.simps fire.simps)
  with resting(2) have "exec fire s ?as = Some ?t"
    by simp
  moreover have "length ?as \<le> 4" "state ?t = Loaded q" "quiet ?t"
    by (simp_all add: quiet_def)
  ultimately show ?thesis
    by blast
qed

lemma sys_inv_enabled:
  assumes "sys_inv s"
  shows "\<exists>a t. fire s a = Some t"
proof (cases "inbox s")
  case (Cons m ms)
  then show ?thesis
    by (blast intro: fire_Deliver_eq)
next
  case Nil
  with assms show ?thesis
  proof (cases rule: quiet_cases)
    case waiting
    then have "0 < length (tasks s)"
      by (metis length_greater_0_conv list.distinct(1) showing_simps(5))
    then show ?thesis
      by (blast intro: fire_Complete_eq)
  next
    case resting
    with fire_Press_showing [of "state s" "io s"] show ?thesis
      by metis
  qed
qed

text \<open>
  C18 (liveness). The program can always go on, and can always show any quote. In
  every reachable state some action is enabled: when a message is waiting the loop can
  deliver it; otherwise a running fetch can complete; otherwise the window has a button
  to press. And from every reachable state, for every quote \<open>q\<close>, there is an
  execution of at most four actions beyond the messages already waiting that ends with
  \<open>q\<close> loaded, the inbox empty and no fetch running: it drains the inbox, presses the
  button if no fetch is under way, and completes the fetch against a network that
  serves \<open>q\<close>.
\<close>
theorem progress:
  assumes "reachable s"
  shows "(\<exists>a t. step s a t) \<and>
    (\<exists>as t. length as \<le> length (inbox s) + 4 \<and> exec fire s as = Some t \<and>
       state t = Loaded q \<and> quiet t)"
proof
  from assms show "\<exists>a t. step s a t"
    by (blast dest: reachable_inv sys_inv_enabled intro: fire_step)
next
  obtain u where drain: "exec fire s (replicate (length (inbox s)) Deliver) = Some u"
    and "inbox u = []"
    using exec_drain [of s] by blast
  moreover from assms drain have "sys_inv u"
    by (blast intro: reachable_inv reachable_exec)
  ultimately obtain bs t where "length bs \<le> 4" and "exec fire u bs = Some t"
    and "state t = Loaded q" and "quiet t"
    using exec_to_Loaded [of u q] by blast
  with drain have "length (replicate (length (inbox s)) Deliver @ bs) \<le> length (inbox s) + 4"
    and "exec fire s (replicate (length (inbox s)) Deliver @ bs) = Some t"
    by (simp_all add: exec_append)
  with \<open>state t = Loaded q\<close> \<open>quiet t\<close>
  show "\<exists>as t. length as \<le> length (inbox s) + 4 \<and> exec fire s as = Some t \<and>
      state t = Loaded q \<and> quiet t"
    by blast
qed

theorem progress_witness:
  "reachable (showing Errored [] \<lparr>requests = [url], stderr = [()]\<rparr>) \<and>
   (\<exists>a t. step (showing Errored [] \<lparr>requests = [url], stderr = [()]\<rparr>) a t) \<and>
   (\<exists>as t. length as \<le> 4 \<and>
      exec fire (showing Errored [] \<lparr>requests = [url], stderr = [()]\<rparr>) as = Some t \<and>
      state t = Loaded (quote_of wilde) \<and> quiet t)"
  using progress [of "showing Errored [] \<lparr>requests = [url], stderr = [()]\<rparr>" "quote_of wilde"]
    reachable_after_fetch [of "failing ()"]
  by (simp add: loaded_with_def)

end
