(* ===== verification/Quotes_Trace.thy ===== *)
theory Quotes_Trace
  imports Quotes_Runtime
begin

text \<open>
  Executions of the run loop, seen from outside: which messages were taken out of the
  inbox and passed to \<open>update\<close>, and how the application state, the window and the
  tasks at the end relate to them.

  \<open>taken\<close> is the observation of one action; \<open>observe fire taken\<close> collects the messages
  taken along an execution. The loop is built to pass every message to \<open>update\<close> and
  to start what \<open>update\<close> returns; the lemmas \<open>exec_state\<close> and \<open>exec_tasks\<close> state
  that much. The theorem \<open>loop_refines_run\<close> joins them with what \<open>update\<close> and \<open>view\<close>
  do: the state, the screen and the number of fetches after an execution are given by
  the closed form of a run (\<open>state_after\<close>, \<open>starts_fetch\<close> of \<open>Quotes_App\<close>) and the
  rendering rule of the specification. A session of any number of fetch cycles is then
  followed from its first state to its last.
\<close>

fun taken :: "'e Sys \<Rightarrow> 'e Action \<Rightarrow> Message list" where
  "taken s Deliver = take 1 (inbox s)"
| "taken s (Press m) = []"
| "taken s (Complete i net) = []"

text \<open>
  A session of the user: \<open>session nets\<close> is the execution in which every fetch is
  completed and delivered before the user presses the button for the next one, the
  \<open>i\<close>-th fetch running against the \<open>i\<close>-th network of \<open>nets\<close>. \<open>shown net\<close> is the state
  a fetch against \<open>net\<close> leads to and \<open>log_of net\<close> what it prints.
\<close>
fun session :: "'e Network list \<Rightarrow> 'e Action list" where
  "session [] = []"
| "session [net] = [Complete 0 net, Deliver]"
| "session (net # nets) = Complete 0 net # Deliver # Press Search # Deliver # session nets"

definition shown :: "'e Network \<Rightarrow> Quotes" where
  "shown net = (case outcome net of Inl e \<Rightarrow> Errored | Inr entry \<Rightarrow> Loaded (quote_of entry))"

definition log_of :: "'e Network \<Rightarrow> 'e list" where
  "log_of net = (case outcome net of Inl e \<Rightarrow> [e] | Inr entry \<Rightarrow> [])"

subsection \<open>One action\<close>

lemma fire_state:
  "fire s a = Some t \<Longrightarrow> state t = run_state update (state s) (taken s a)"
  by (cases a) (auto split: if_splits prod.splits list.splits)

lemma fire_tasks:
  "fire s a = Some t \<Longrightarrow>
   length (tasks t) + (if is_Complete a then 1 else 0) =
     length (tasks s) + fetches (state s) (taken s a)"
  by (cases a) (auto split: if_splits prod.splits list.splits)

subsection \<open>Executions\<close>

text \<open>
  The reachable states of the run loop are exactly the results of the executions of
  the step function from the start.
\<close>
lemma reachable_iff_exec:
  "reachable s \<longleftrightarrow> (\<exists>as. exec fire main as = Some s)"
  by (blast intro: exec_reachable dest: reachable_imp_exec)

lemma exec_state:
  assumes "exec fire s as = Some t"
  shows "state t = state_after (state s) (observe fire taken s as)"
proof -
  from assms have "state t = run_state update (state s) (observe fire taken s as)"
    by (rule exec_refines_run) (rule fire_state)
  then show ?thesis
    by (simp add: run_state_update)
qed

lemma exec_tasks:
  assumes "exec fire s as = Some t"
  shows "length (tasks t) + count_where is_Complete as =
    length (tasks s) + fetches (state s) (observe fire taken s as)"
  using assms
proof (induction as arbitrary: s)
  case Nil
  then show ?case by simp
next
  case (Cons a as)
  from Cons.prems obtain u where u: "fire s a = Some u" and rest: "exec fire u as = Some t"
    by (rule exec_ConsE)
  note Cons.IH [OF rest] fire_tasks [OF u] fire_state [OF u, symmetric]
  with u show ?case
    by (simp split: if_splits)
qed

text \<open>
  C12 (refinement). The run loop implements the state machine, and the state machine
  decides what is seen. After any execution from a reachable state, with \<open>ms\<close> the
  messages the loop has taken from the inbox: the application state is the one the last
  of \<open>ms\<close> leads to (\<open>state_after\<close>); the window shows the texts and the buttons that the
  specification's rendering rule gives for that state; and the tasks started, running
  or completed, are the tasks there were plus one for every search request in \<open>ms\<close>
  that does not follow another search request (\<open>starts_fetch\<close>).
\<close>
theorem loop_refines_run:
  assumes "reachable s" and "exec fire s as = Some t"
  shows "state t = state_after (state s) (observe fire taken s as) \<and>
    (texts (window t), buttons (window t)) =
      rendering (state_after (state s) (observe fire taken s as)) \<and>
    length (tasks t) + count_where is_Complete as =
      length (tasks s) +
      count_where (starts_fetch (state s) (observe fire taken s as))
        [0..<length (observe fire taken s as)]"
proof -
  from assms have "reachable t"
    by (rule reachable_exec)
  then have "window t = view (state t)"
    by (simp add: reachable_inv [unfolded sys_inv_def window_inv_def])
  moreover have "(texts (view (state t)), buttons (view (state t))) = rendering (state t)"
    by (cases "state t") (simp_all add: view_simps)
  ultimately show ?thesis
    using exec_state [OF assms(2)] exec_tasks [OF assms(2)] by (simp add: fetches_closed)
qed

theorem loop_refines_run_witness:
  "reachable (main :: unit Sys) \<and>
   exec fire (main :: unit Sys)
     [Complete 0 (failing ()), Deliver, Press Search, Press Search, Deliver, Deliver] =
     Some (showing Loading [(Quote_search, Message_QuoteFound)] \<lparr>requests = [url], stderr = [()]\<rparr>) \<and>
   observe fire taken (main :: unit Sys)
     [Complete 0 (failing ()), Deliver, Press Search, Press Search, Deliver, Deliver] =
     [QuoteFound (Err APIError), Search, Search] \<and>
   state_after Loading [QuoteFound (Err APIError), Search, Search] = Loading \<and>
   count_where (starts_fetch Loading [QuoteFound (Err APIError), Search, Search]) [0..<3] = 1"
proof -
  have start: "reachable (main :: unit Sys)"
    by (rule reachable.start)
  have run: "exec fire (main :: unit Sys)
      [Complete 0 (failing ()), Deliver, Press Search, Press Search, Deliver, Deliver] =
      Some (showing Loading [(Quote_search, Message_QuoteFound)] \<lparr>requests = [url], stderr = [()]\<rparr>)"
    by (simp add: main_eq showing_def loaded_with_def messages_def view_simps title_def)
  have taken: "observe fire taken (main :: unit Sys)
      [Complete 0 (failing ()), Deliver, Press Search, Press Search, Deliver, Deliver] =
      [QuoteFound (Err APIError), Search, Search]"
    by (simp add: main_eq showing_def loaded_with_def messages_def view_simps title_def)
  from start run taken loop_refines_run [OF start run] show ?thesis
    by (simp add: main_eq starts_fetch_def state_after_def numeral_3_eq_3 upt_rec)
qed

subsection \<open>Sessions\<close>

lemma search_shown [simp]:
  "snd (search net w) = w\<lparr>requests := requests w @ [url], stderr := stderr w @ log_of net\<rparr>"
  "loaded_with (fst (search net w)) = shown net"
  by (simp_all add: search_eq shown_def log_of_def loaded_with_def split: sum.split)

lemma shown_neq_Loading [simp]: "shown net \<noteq> Loading"
  by (simp add: shown_def split: sum.split)

lemma exec_fetch:
  "exec fire (showing st [(f, k)] w) (Complete 0 net # Deliver # as) =
     exec fire (showing (shown net) []
       (w\<lparr>requests := requests w @ [url], stderr := stderr w @ log_of net\<rparr>)) as"
  by (simp add: fire_Complete_showing fire_Deliver_found del: fire.simps)

lemma exec_again:
  "st \<noteq> Loading \<Longrightarrow>
   exec fire (showing st [] w) (Press Search # Deliver # as) =
     exec fire (showing Loading [(Quote_search, Message_QuoteFound)] w) as"
  by (simp add: fire_Press_showing fire_Deliver_Search del: fire.simps)

text \<open>
  C16 (functional). A whole session: from a state that waits for its one fetch, as the
  program does at start, any number of fetch cycles can be executed one after the
  other. At the end the window shows the outcome of the last fetch, the world has seen
  one request per fetch, all to the endpoint, and standard error holds the causes of the
  failed fetches, in the order of the fetches.
\<close>
theorem session_outcome:
  assumes "nets \<noteq> []"
  shows "exec fire (showing st [(f, k)] w) (session nets) =
    Some (showing (shown (last nets)) []
      (w\<lparr>requests := requests w @ replicate (length nets) url,
         stderr := stderr w @ concat (map log_of nets)\<rparr>))"
  using assms
proof (induction nets arbitrary: st f k w rule: session.induct)
  case 1
  then show ?case by simp
next
  case (2 net)
  show ?case
    by (simp add: exec_fetch del: exec.simps(2))
next
  case (3 net net' nets)
  then show ?case
    by (simp add: exec_fetch exec_again replicate_append_same del: exec.simps(2) fire.simps)
qed

theorem session_outcome_witness:
  "[failing (), answering wilde] \<noteq> [] \<and>
   exec fire main (session [failing (), answering wilde]) =
     Some (showing (Loaded (quote_of wilde)) [] \<lparr>requests = [url, url], stderr = [()]\<rparr>)"
  using session_outcome [of "[failing (), answering wilde]" Loading Quote_search
      Message_QuoteFound "\<lparr>requests = [], stderr = []\<rparr>"]
  by (simp add: main_eq shown_def log_of_def del: exec.simps fire.simps)

end
