(* ===== verification/Quotes_Settle.thy ===== *)
theory Quotes_Settle
  imports Quotes_Trace
begin

text \<open>
  The run loop left alone. When the user stops pressing, what remains to be done is
  finite: \<open>schedule net s\<close> is the list of actions by which the loop, from the state
  \<open>s\<close>, delivers every message of the inbox and completes every running task against
  the network \<open>net\<close>, messages first, until nothing is left. A delivery can start a
  task and a completion posts a message, so neither the inbox nor the task list alone
  decides how long this takes; \<open>weight\<close> does: a running task counts two (its
  completion and the delivery of its result), a fetch result in the inbox one, a search
  request in the inbox three (its delivery, and the fetch it may start). Every turn of
  the loop lowers the weight, which is the termination proof of \<open>schedule\<close>.

  The theorems show that the schedule can always be executed and ends in a quiet
  state, that it is no longer than the weight, and which state it ends in from a
  reachable state: \<open>rest\<close>, reached with at most one more request, with a quote or
  the failure screen in the window and never the loading screen.
\<close>

definition weight :: "'e Sys \<Rightarrow> nat" where
  "weight s =
     2 * length (tasks s) + length (inbox s) + 2 * count_where (\<lambda>m. m = Search) (inbox s)"

text \<open>
  Two notions for the state the schedule ends in. In a \<open>tidy\<close> inbox a fetch result is
  the last message: nothing can be pressed between the completion of a fetch and the
  delivery of its result. \<open>rest net s\<close> is the state at rest: the outcome of one more
  fetch when a fetch is running or a search request is waiting in a state that will
  honour it, and otherwise the state the waiting result, if any, leads to.
\<close>
definition tidy :: "'e Sys \<Rightarrow> bool" where
  "tidy s \<longleftrightarrow> list_all (\<lambda>m. m = Search) (butlast (inbox s))"

definition rest :: "'e Network \<Rightarrow> 'e Sys \<Rightarrow> 'e Sys" where
  "rest net s =
     (if tasks s \<noteq> [] \<or> (state s \<noteq> Loading \<and> inbox s \<noteq> []) then
        showing (loaded_with (fst (search net (io s)))) [] (snd (search net (io s)))
      else showing (state_after (state s) (inbox s)) [] (io s))"

function schedule :: "'e Network \<Rightarrow> 'e Sys \<Rightarrow> 'e Action list" where
  "schedule net s =
     (if inbox s \<noteq> [] then
        (case fire s Deliver of None \<Rightarrow> [] | Some t \<Rightarrow> Deliver # schedule net t)
      else if tasks s \<noteq> [] then
        (case fire s (Complete 0 net) of None \<Rightarrow> [] | Some t \<Rightarrow> Complete 0 net # schedule net t)
      else [])"
  by pat_completeness auto

subsection \<open>Every turn of the loop lowers the weight\<close>

lemma fire_Deliver_weight: "fire s Deliver = Some t \<Longrightarrow> weight t < weight s"
  by (cases "inbox s"; cases "hd (inbox s)")
    (auto simp: weight_def fetch_def split: prod.splits if_splits)

lemma fire_Complete_weight:
  assumes "fire s (Complete i net) = Some t"
  shows "weight t < weight s"
proof (cases "i < length (tasks s)")
  case True
  with assms fire_Complete_eq [OF True, of net] show ?thesis
    by (auto simp: weight_def simp del: fire.simps)
next
  case False
  with assms show ?thesis by simp
qed

termination schedule
  by (relation "measure (\<lambda>(net, s). weight s)")
    (auto intro: fire_Deliver_weight fire_Complete_weight simp del: fire.simps)

declare schedule.simps [simp del]

lemma schedule_quiet [simp]: "quiet s \<Longrightarrow> schedule net s = []"
  by (simp add: schedule.simps quiet_def)

lemma schedule_Deliver:
  "fire s Deliver = Some t \<Longrightarrow> schedule net s = Deliver # schedule net t"
  by (cases "inbox s") (simp_all add: schedule.simps [of net s] del: fire.simps)

lemma schedule_Complete:
  assumes "inbox s = []" and "fire s (Complete 0 net) = Some t"
  shows "schedule net s = Complete 0 net # schedule net t"
proof -
  from assms(2) have "tasks s \<noteq> []"
    by (auto split: if_splits)
  with assms show ?thesis
    by (simp add: schedule.simps [of net s] del: fire.simps)
qed

lemma schedule_step:
  assumes "\<not> quiet s"
  obtains a t where "fire s a = Some t" and "schedule net s = a # schedule net t"
    and "\<not> is_Press a" and "weight t < weight s"
proof (cases "inbox s")
  case (Cons m ms)
  then obtain t where "fire s Deliver = Some t"
    using fire_Deliver_eq [of s m ms] by blast
  then show ?thesis
    by (intro that [of Deliver t])
      (simp_all add: schedule_Deliver fire_Deliver_weight del: fire.simps)
next
  case Nil
  with assms have "tasks s \<noteq> []"
    by (simp add: quiet_def)
  then obtain t where "fire s (Complete 0 net) = Some t"
    using fire_Complete_eq [of 0 s net] by blast
  with Nil show ?thesis
    by (intro that [of "Complete 0 net" t])
      (simp_all add: schedule_Complete fire_Complete_weight del: fire.simps)
qed

lemma settle_induct [case_names quiet step]:
  assumes "\<And>s. quiet s \<Longrightarrow> P s"
    and "\<And>s a t. \<not> quiet s \<Longrightarrow> fire s a = Some t \<Longrightarrow> schedule net s = a # schedule net t \<Longrightarrow>
           \<not> is_Press a \<Longrightarrow> weight t < weight s \<Longrightarrow> P t \<Longrightarrow> P s"
  shows "P s"
proof (induction s rule: measure_induct_rule [of weight])
  case (less s)
  show ?case
  proof (cases "quiet s")
    case True
    then show ?thesis by (rule assms(1))
  next
    case False
    then obtain a t where "fire s a = Some t" and "schedule net s = a # schedule net t"
      and "\<not> is_Press a" and "weight t < weight s"
      by (rule schedule_step)
    with False less.IH [of t] show ?thesis
      by (intro assms(2) [of s a t]) simp_all
  qed
qed

lemma quiet_not_Loading: "sys_inv s \<Longrightarrow> quiet s \<Longrightarrow> state s \<noteq> Loading"
  by (auto simp: runtime_defs quiet_def awaiting_def)

lemma schedule_exec: "\<exists>t. exec fire s (schedule net s) = Some t \<and> quiet t"
  by (induction s rule: settle_induct [where net = net]) simp_all

lemma schedule_quiet_showing [simp]: "schedule net (showing st [] w) = []"
  by (simp add: schedule_quiet quiet_def)

lemma schedule_showing:
  "schedule net (showing st [(f, k)] w) = [Complete 0 net, Deliver]"
  by (simp add: schedule.simps [of net "showing st [(f, k)] w"]
      schedule.simps [of net "(showing st [] w')\<lparr>inbox := [QuoteFound r]\<rparr>" for w' r]
      fire_Complete_showing fire_Deliver_found del: fire.simps)

subsection \<open>The inbox is tidy\<close>

lemma no_QuoteFound_iff: "count_where is_QuoteFound ms = 0 \<longleftrightarrow> list_all (\<lambda>m. m = Search) ms"
proof (induction ms)
  case Nil
  show ?case by simp
next
  case (Cons m ms)
  then show ?case by (cases m) simp_all
qed

lemma sys_inv_idle:
  assumes "sys_inv s" and "state s \<noteq> Loading"
  shows "tasks s = []" and "list_all (\<lambda>m. m = Search) (inbox s)"
  using assms
  by (simp_all add: sys_inv_def flight_inv_def in_flight_def awaiting_def no_QuoteFound_iff [symmetric])

lemma fire_tidy:
  assumes "sys_inv s" and "tidy s" and "fire s a = Some t"
  shows "tidy t"
proof (cases a)
  case (Press m)
  with assms(3) have m: "m \<in> set (messages (window s))" and t: "t = s\<lparr>inbox := inbox s @ [m]\<rparr>"
    by (simp_all split: if_splits)
  from assms(1) m have "state s \<noteq> Loading"
    by (simp add: sys_inv_def pressed_message)
  with assms(1) t show ?thesis
    by (simp add: tidy_def sys_inv_idle)
next
  case (Complete i net)
  with assms(3) have i: "i < length (tasks s)"
    by (simp split: if_splits)
  then have "tasks s \<noteq> []"
    by auto
  with assms(1) have "list_all (\<lambda>m. m = Search) (inbox s)"
    by (simp add: sys_inv_running no_QuoteFound_iff [symmetric])
  with assms(3) Complete i show ?thesis
    by (auto simp: tidy_def fire_Complete_eq simp del: fire.simps)
next
  case Deliver
  with assms(3) obtain m ms where inbox: "inbox s = m # ms"
    by (auto split: list.splits)
  with assms(2,3) Deliver show ?thesis
    by (auto simp: tidy_def fire_Deliver_eq simp del: fire.simps split: if_splits)
qed

lemma reachable_tidy: "reachable s \<Longrightarrow> tidy s"
proof (induction rule: reachable.induct)
  case start
  show ?case by (simp add: tidy_def main_eq)
next
  case (next_state s a t)
  then show ?case
    by (blast intro: fire_tidy reachable_inv step_fire)
qed

subsection \<open>Where the schedule ends\<close>

lemma settle_running:
  assumes "sys_inv s" and "tasks s \<noteq> []"
  shows "exec fire s (schedule net s) =
    Some (showing (loaded_with (fst (search net (io s)))) [] (snd (search net (io s))))"
  using assms
proof (induction "inbox s" arbitrary: s)
  case Nil
  from Nil.prems(1) Nil.hyps [symmetric] show ?case
  proof (cases rule: quiet_cases)
    case waiting
    have "exec fire (showing Loading [(Quote_search, Message_QuoteFound)] (io s))
        (schedule net (showing Loading [(Quote_search, Message_QuoteFound)] (io s))) =
      Some (showing (loaded_with (fst (search net (io s)))) [] (snd (search net (io s))))"
      by (simp only: schedule_showing exec_cycle)
    with waiting(2) show ?thesis
      by simp
  next
    case resting
    with Nil.prems(2) have False
      by (metis showing_simps(5))
    then show ?thesis ..
  qed
next
  case (Cons m ms)
  from Cons.hyps(2) [symmetric] obtain u where u: "fire s Deliver = Some u"
    by (simp add: fire_Deliver_eq del: fire.simps)
  with Cons.prems have eq: "u = s\<lparr>inbox := tl (inbox s)\<rparr>"
    using fire_while_running [of s Deliver u] by simp
  with Cons.hyps(2) [symmetric] Cons.prems(2) have "ms = inbox u" "tasks u \<noteq> []" "io u = io s"
    by simp_all
  moreover from Cons.prems(1) u have "sys_inv u"
    by (rule fire_inv)
  ultimately have "exec fire u (schedule net u) =
      Some (showing (loaded_with (fst (search net (io s)))) [] (snd (search net (io s))))"
    using Cons.hyps(1) [of u] by simp
  with u show ?case
    by (simp add: schedule_Deliver del: fire.simps)
qed

lemma settle_idle:
  assumes "sys_inv s" and "state s \<noteq> Loading" and "inbox s \<noteq> []"
  shows "exec fire s (schedule net s) =
    Some (showing (loaded_with (fst (search net (io s)))) [] (snd (search net (io s))))"
proof -
  from assms(1,2) have tasks: "tasks s = []" and "list_all (\<lambda>m. m = Search) (inbox s)"
    by (rule sys_inv_idle)+
  with assms(3) obtain ms where inbox: "inbox s = Search # ms"
    by (cases "inbox s") auto
  then obtain u where u: "fire s Deliver = Some u"
    by (simp add: fire_Deliver_eq del: fire.simps)
  with inbox tasks assms(2) have "tasks u \<noteq> []" "io u = io s"
    by (auto simp: fire_Deliver_eq fetch_def simp del: fire.simps)
  moreover from assms(1) u have "sys_inv u"
    by (rule fire_inv)
  ultimately have "exec fire u (schedule net u) =
      Some (showing (loaded_with (fst (search net (io s)))) [] (snd (search net (io s))))"
    using settle_running [of u net] by simp
  with u show ?thesis
    by (simp add: schedule_Deliver del: fire.simps)
qed

lemma settle_result:
  "exec fire ((showing st [] w)\<lparr>inbox := [QuoteFound r]\<rparr>)
     (schedule net ((showing st [] w)\<lparr>inbox := [QuoteFound r]\<rparr>)) =
   Some (showing (loaded_with r) [] w)"
  by (simp add: schedule_Deliver [OF fire_Deliver_found] fire_Deliver_found del: fire.simps)

lemma settle_found:
  assumes "sys_inv s" and "tidy s" and "state s = Loading" and "tasks s = []"
  shows "exec fire s (schedule net s) = Some (showing (state_after Loading (inbox s)) [] (io s))"
  using assms
proof (induction "inbox s" arbitrary: s)
  case Nil
  then show ?case
    by (simp add: sys_inv_def flight_inv_def in_flight_def)
next
  case (Cons m ms)
  note inbox = Cons.hyps(2) [symmetric]
  from Cons.prems(1) have window: "window_inv s"
    by (simp add: sys_inv_def)
  show ?case
  proof (cases m)
    case (QuoteFound r)
    with Cons.prems(2) inbox have "ms = []"
      by (simp add: tidy_def split: if_splits)
    with inbox QuoteFound Cons.prems(3,4) window
    have "s = (showing Loading [] (io s))\<lparr>inbox := [QuoteFound r]\<rparr>"
      by (simp add: showing_def window_inv_def)
    with settle_result [where st = Loading and w = "io s" and r = r and net = net] inbox QuoteFound \<open>ms = []\<close> show ?thesis
      by (simp add: state_after_def)
  next
    case Search
    with inbox have "inbox s = Search # ms"
      by simp
    with window Cons.prems(3) have u: "fire s Deliver = Some (s\<lparr>inbox := ms\<rparr>)"
      by (rule fire_Deliver_stale)
    with Cons.prems(1,2) have inv: "sys_inv (s\<lparr>inbox := ms\<rparr>)" "tidy (s\<lparr>inbox := ms\<rparr>)"
      by (blast intro: fire_inv fire_tidy)+
    with Cons.prems(3,4) have "ms \<noteq> []"
      by (auto simp: sys_inv_def flight_inv_def in_flight_def)
    with inbox Search have "state_after Loading (inbox s) = state_after Loading ms"
      by (simp add: state_after_def)
    with u inv Cons.hyps(1) [of "s\<lparr>inbox := ms\<rparr>"] Cons.prems(3,4) show ?thesis
      by (simp add: schedule_Deliver del: fire.simps)
  qed
qed

subsection \<open>Properties\<close>

text \<open>
  C13 (termination). Left alone, the run loop comes to rest: from any state whatever,
  the schedule that delivers and completes until nothing is left is finite, every action
  of it is enabled when its turn comes, and the state it ends in is quiet, with an empty
  inbox and no running task. The schedule is at most as long as the weight of the
  state: two turns for every running task, one for every fetch result in the inbox and
  three for every search request in it. The user does not take part in it.
\<close>
theorem settles:
  "(\<exists>t. exec fire s (schedule net s) = Some t \<and> quiet t) \<and>
   length (schedule net s) \<le> weight s \<and> count_where is_Press (schedule net s) = 0"
  by (induction s rule: settle_induct [where net = net]) auto

text \<open>
  C11 (functional). Where the program comes to rest: from every state it can reach,
  the schedule ends in the state \<open>rest\<close>, whatever is queued. If a fetch is running, or
  a search request waits while a quote or the failure screen is shown, the loop sends
  exactly one more request and ends showing its outcome; every other search request in
  the inbox is dropped. Otherwise it sends nothing and ends showing the fetch result
  that was waiting, or stays as it is. The loading screen always goes away: the state
  at rest is reachable and quiet, and it shows a quote or the failure screen.
\<close>
theorem settles_to:
  assumes "reachable s"
  shows "exec fire s (schedule net s) = Some (rest net s) \<and>
    reachable (rest net s) \<and> quiet (rest net s) \<and> state (rest net s) \<noteq> Loading \<and>
    requests (io (rest net s)) =
      requests (io s) @ (if tasks s \<noteq> [] \<or> (state s \<noteq> Loading \<and> inbox s \<noteq> []) then [url] else [])"
proof -
  from assms have inv: "sys_inv s" and tidy: "tidy s"
    by (simp_all add: reachable_inv reachable_tidy)
  have rest_ok: "reachable (rest net s) \<and> quiet (rest net s) \<and> state (rest net s) \<noteq> Loading"
    if "exec fire s (schedule net s) = Some (rest net s)"
    using that assms schedule_exec [of s net]
    by (auto dest: reachable_exec reachable_inv quiet_not_Loading)
  consider (running) "tasks s \<noteq> []" | (idle) "tasks s = []" "state s \<noteq> Loading" "inbox s \<noteq> []"
    | (quiet) "tasks s = []" "state s \<noteq> Loading" "inbox s = []"
    | (found) "tasks s = []" "state s = Loading"
    by blast
  then show ?thesis
  proof cases
    case running
    with inv show ?thesis
      using rest_ok by (simp add: rest_def settle_running)
  next
    case idle
    with inv show ?thesis
      using rest_ok by (simp add: rest_def settle_idle)
  next
    case quiet
    with inv have "s = showing (state s) [] (io s)"
      by (metis quiet_window_inv_showing sys_inv_def)
    with quiet show ?thesis
      using rest_ok by (simp add: rest_def quiet_def)
  next
    case found
    with inv tidy show ?thesis
      using rest_ok by (simp add: rest_def settle_found)
  qed
qed

theorem settles_to_witness:
  "reachable ((showing Loading [(Quote_search, Message_QuoteFound)]
       \<lparr>requests = [url], stderr = [()]\<rparr>)\<lparr>inbox := [Search]\<rparr>) \<and>
   exec fire ((showing Loading [(Quote_search, Message_QuoteFound)]
       \<lparr>requests = [url], stderr = [()]\<rparr>)\<lparr>inbox := [Search]\<rparr>)
     (schedule (answering wilde) ((showing Loading [(Quote_search, Message_QuoteFound)]
       \<lparr>requests = [url], stderr = [()]\<rparr>)\<lparr>inbox := [Search]\<rparr>)) =
     Some (showing (Loaded (quote_of wilde)) [] \<lparr>requests = [url, url], stderr = [()]\<rparr>)"
  using settles_to
      [of "(showing Loading [(Quote_search, Message_QuoteFound)]
         \<lparr>requests = [url], stderr = [()]\<rparr>)\<lparr>inbox := [Search]\<rparr>" "answering wilde"]
    reachable_stale_Search [of "()"]
  by (simp add: rest_def showing_def loaded_with_def)

end
