(* ===== verification/Quotes_Decode.thy ===== *)
theory Quotes_Decode
  imports Complex_Main "HOL-Library.Multiset" Quotes_Fetcher
begin

text \<open>
  Decoding the body of a response: what \<^verbatim>\<open>#[derive(Deserialize)]\<close> on \<^verbatim>\<open>struct Entry\<close>
  (src/src/main.rs) makes of a JSON object. The decoder is generated code and not in
  the repository; it is modelled from the specification (an object with at least the
  two string fields; a missing field or a field of another shape is a failure) with
  the field names and types of the struct.

  \<open>Json\<close> is a JSON value; an object is the list of its fields in the order of the
  text, so that a repeated name can be told. \<open>visit_map\<close> reads the fields one after
  the other as the generated visitor does: \<open>Partial\<close> holds the two optional strings
  found so far, \<open>visit_fields\<close> is the loop (a field named content or author must be
  a string and must not have been seen before, any other field is skipped), \<open>finish\<close>
  builds the entry or reports the first missing field. \<open>values_of\<close> is the reference
  reading of an object (all values under a name), and \<open>serving\<close> the network whose
  response is the decoding of a given object (it joins the decoder to the fetcher in
  the theorem \<open>start_to_screen\<close> of the root theory). The order of the fields decides which
  error a bad object gives, and nothing else: a good object decodes to the same entry
  in every order, which the round trip states over the multiset of the fields.

  Turning the bytes of the body into a JSON value, and what the decoder does with a
  body that is not an object, are left to the library: nothing is claimed about them.
\<close>

datatype Json =
    Null
  | Bool bool
  | Number real
  | Str String
  | Array "Json list"
  | Object "(String \<times> Json) list"

datatype Decode_error =
    Invalid_type
  | Missing_field String
  | Duplicate_field String

record Partial =
  got_content :: "String option"
  got_author :: "String option"

fun deserialize_String :: "Json \<Rightarrow> Decode_error + String" where
  "deserialize_String (Str s) = Ok s"
| "deserialize_String v = Err Invalid_type"

fun visit_fields :: "Partial \<Rightarrow> (String \<times> Json) list \<Rightarrow> Decode_error + Partial" where
  "visit_fields p [] = Ok p"
| "visit_fields p ((k, v) # fs) =
     (if k = ''content'' then
        (case got_content p of
           Some c \<Rightarrow> Err (Duplicate_field ''content'')
         | None \<Rightarrow>
             (case deserialize_String v of
                Inl e \<Rightarrow> Err e
              | Inr s \<Rightarrow> visit_fields (p\<lparr>got_content := Some s\<rparr>) fs))
      else if k = ''author'' then
        (case got_author p of
           Some a \<Rightarrow> Err (Duplicate_field ''author'')
         | None \<Rightarrow>
             (case deserialize_String v of
                Inl e \<Rightarrow> Err e
              | Inr s \<Rightarrow> visit_fields (p\<lparr>got_author := Some s\<rparr>) fs))
      else visit_fields p fs)"

definition finish :: "Partial \<Rightarrow> Decode_error + Entry" where
  "finish p =
     (case got_content p of
        None \<Rightarrow> Err (Missing_field ''content'')
      | Some c \<Rightarrow>
          (case got_author p of
             None \<Rightarrow> Err (Missing_field ''author'')
           | Some a \<Rightarrow> Ok \<lparr>entry_content = c, entry_author = a\<rparr>))"

definition visit_map :: "(String \<times> Json) list \<Rightarrow> Decode_error + Entry" where
  "visit_map fs =
     (case visit_fields \<lparr>got_content = None, got_author = None\<rparr> fs of
        Inl e \<Rightarrow> Err e
      | Inr p \<Rightarrow> finish p)"

definition values_of :: "String \<Rightarrow> (String \<times> Json) list \<Rightarrow> Json list" where
  "values_of k fs = map snd (filter (\<lambda>f. fst f = k) fs)"

definition object_of :: "Entry \<Rightarrow> (String \<times> Json) list" where
  "object_of e = [(''content'', Str (entry_content e)), (''author'', Str (entry_author e))]"

definition serving :: "(Decode_error \<Rightarrow> 'e) \<Rightarrow> nat \<Rightarrow> (String \<times> Json) list \<Rightarrow> 'e Network" where
  "serving wrap st fs =
     (\<lambda>u. Ok \<lparr>status = st, json = (case visit_map fs of Inl e \<Rightarrow> Err (wrap e) | Inr entry \<Rightarrow> Ok entry)\<rparr>)"

text \<open>
  What the loop has found under a name when it ends well: \<open>expected before vs after\<close>
  relates the string held before, the values \<open>vs\<close> of the fields with that name, and
  the string held after.
\<close>
fun expected :: "String option \<Rightarrow> Json list \<Rightarrow> String option \<Rightarrow> bool" where
  "expected None vs r = (case r of Some s \<Rightarrow> vs = [Str s] | None \<Rightarrow> vs = [])"
| "expected (Some s) vs r = (vs = [] \<and> r = Some s)"

subsection \<open>The loop over the fields\<close>

lemma values_of_simps [simp]:
  "values_of k [] = []"
  "values_of k ((k', v) # fs) = (if k' = k then v # values_of k fs else values_of k fs)"
  by (simp_all add: values_of_def)

lemma deserialize_String_Ok [simp]: "deserialize_String v = Ok s \<longleftrightarrow> v = Str s"
  by (cases v) auto

lemma visit_fields_Ok:
  "visit_fields p fs = Ok p' \<longleftrightarrow>
     expected (got_content p) (values_of ''content'' fs) (got_content p') \<and>
     expected (got_author p) (values_of ''author'' fs) (got_author p')"
proof (induction p fs rule: visit_fields.induct)
  case (1 p)
  then show ?case
    by (cases p; cases p'; cases "got_content p"; cases "got_author p") (auto split: option.splits)
next
  case (2 p k v fs)
  then show ?case
    by (cases "got_content p"; cases "got_author p"; cases "deserialize_String v")
      (auto split: option.splits)
qed

lemma visit_fields_complete:
  "expected (got_content p) (values_of ''content'' fs) (got_content p') \<Longrightarrow>
   expected (got_author p) (values_of ''author'' fs) (got_author p') \<Longrightarrow>
   visit_fields p fs = Ok p'"
  by (simp add: visit_fields_Ok)

lemma values_of_append [simp]: "values_of k (xs @ ys) = values_of k xs @ values_of k ys"
  by (simp add: values_of_def)

lemma mset_values_of:
  "mset (values_of k fs) = image_mset snd (filter_mset (\<lambda>f. fst f = k) (mset fs))"
  by (simp add: values_of_def)

subsection \<open>Properties\<close>

text \<open>
  C14 (equivalence). The decoder agrees with the reference reading of an object: it
  yields an entry exactly when the object has exactly one field named content and
  exactly one named author, both strings, and then the entry holds these two strings.
  Other fields are ignored, wherever they stand.
\<close>
theorem visit_map_reference:
  "visit_map fs = Ok e \<longleftrightarrow>
     values_of ''content'' fs = [Str (entry_content e)] \<and>
     values_of ''author'' fs = [Str (entry_author e)]"
proof
  assume "visit_map fs = Ok e"
  then obtain p where "visit_fields \<lparr>got_content = None, got_author = None\<rparr> fs = Ok p"
    and "finish p = Ok e"
    by (auto simp: visit_map_def split: sum.splits)
  then show "values_of ''content'' fs = [Str (entry_content e)] \<and>
      values_of ''author'' fs = [Str (entry_author e)]"
    by (auto simp: visit_fields_Ok finish_def split: option.splits)
next
  let ?p = "\<lparr>got_content = Some (entry_content e), got_author = Some (entry_author e)\<rparr>"
  assume "values_of ''content'' fs = [Str (entry_content e)] \<and>
      values_of ''author'' fs = [Str (entry_author e)]"
  then have "visit_fields \<lparr>got_content = None, got_author = None\<rparr> fs = Ok ?p"
    by (simp add: visit_fields_Ok)
  then show "visit_map fs = Ok e"
    by (simp add: visit_map_def finish_def)
qed

text \<open>
  C20 (roundtrip). An entry written as an object decodes to the same entry, in
  whatever order the fields stand and whatever other fields stand among them: the
  decoder depends on the fields of an object as a multiset, not on their order.
\<close>
theorem decode_roundtrip:
  assumes "mset fs = mset (object_of e) + mset others"
    and "values_of ''content'' others = []" and "values_of ''author'' others = []"
  shows "visit_map fs = Ok e"
proof -
  let ?p = "\<lparr>got_content = Some (entry_content e), got_author = Some (entry_author e)\<rparr>"
  from assms(1) have "mset (values_of k fs) =
      mset (values_of k (object_of e) @ values_of k others)" for k
    by (simp add: mset_values_of)
  with assms(2,3) have "mset (values_of ''content'' fs) = {#Str (entry_content e)#}"
    and "mset (values_of ''author'' fs) = {#Str (entry_author e)#}"
    by (simp_all add: object_of_def)
  then have "visit_fields \<lparr>got_content = None, got_author = None\<rparr> fs = Ok ?p"
    by (intro visit_fields_complete) simp_all
  then show ?thesis
    by (simp add: visit_map_def finish_def)
qed

theorem decode_roundtrip_witness:
  "visit_map [(''_id'', Str ''x1''), (''author'', Str (entry_author wilde)),
     (''length'', Number 11), (''content'', Str (entry_content wilde))] = Ok wilde"
  by (rule decode_roundtrip [where others = "[(''_id'', Str ''x1''), (''length'', Number 11)]"])
    (simp_all add: object_of_def)

end
