(* ===== verification/Spec2Isabelle.thy ===== *)
theory Spec2Isabelle
  imports Quotes_Settle Quotes_Decode
begin

text \<open>
  \<^bold>\<open>A verification development for the quotes application\<close> (src/src/main.rs).

  \<^bold>\<open>The program.\<close> A desktop application with one window. At start it fetches a random
  quote from a fixed web endpoint and shows it; a button fetches another. The source
  has four parts, all in src/src/main.rs:
  \<^item> the state machine: \<^verbatim>\<open>enum Quotes\<close> (Loading, Loaded, Errored), \<^verbatim>\<open>enum Message\<close>
    (QuoteFound, Search) and the methods \<^verbatim>\<open>new\<close>, \<^verbatim>\<open>title\<close> and \<^verbatim>\<open>update\<close>;
  \<^item> the presentation: \<^verbatim>\<open>Quotes::view\<close>, \<^verbatim>\<open>Quote::view\<close> and \<^verbatim>\<open>button\<close>, which build the
    widget tree of each state;
  \<^item> the fetcher: \<^verbatim>\<open>struct Quote\<close>, \<^verbatim>\<open>Quote::search\<close>, the local \<^verbatim>\<open>struct Entry\<close>,
    \<^verbatim>\<open>enum Error\<close> and its conversion from the HTTP library's error;
  \<^item> \<^verbatim>\<open>main\<close>, which hands the program to the GUI library's run loop.
  The run loop calls \<^verbatim>\<open>new\<close>, passes every message to \<^verbatim>\<open>update\<close>, performs the
  command \<^verbatim>\<open>update\<close> returns as a background task whose result comes back as a
  message, and redraws with \<^verbatim>\<open>view\<close> and \<^verbatim>\<open>title\<close>.

  \<^bold>\<open>The theories.\<close>
  \<^item> \<open>Quotes_Prelude\<close>: strings as byte lists, \<^verbatim>\<open>Result\<close> as a sum with the
    question-mark operator (\<open>question_io\<close>), counting (\<open>count_where\<close>), runs of a
    machine with outputs (\<open>run\<close>, \<open>run_state\<close>, \<open>run_outputs\<close>), executions of a
    partial step function (\<open>exec\<close>) and what is observed along them (\<open>observe\<close>), with
    the proof rules for invariants, potentials, refinement of a run and queues.
  \<^item> \<open>Quotes_Fetcher\<close>: \<open>Quote\<close>, \<open>Error\<close>, \<open>Entry\<close> and \<open>search\<close> with the steps it is
    made of (\<open>fetch_entry\<close>, \<open>from_reqwest_Error\<close>, \<open>url\<close>). The outside world is a
    parameter: a network \<open>'e Network\<close> that answers a GET with a library error of type
    \<open>'e\<close> or a response (status code and the outcome of decoding the body), and a
    record \<open>'e Io\<close> of the requests sent and the lines printed by \<^verbatim>\<open>dbg!\<close>, threaded
    through the calls. Lemmas: the result on every branch; the effects on the world
    (one request per call and to the fixed endpoint, the cause logged once on failure
    only); that the status code plays no part.
  \<^item> \<open>Quotes_App\<close>: \<open>Quotes\<close>, \<open>Message\<close>, \<open>Command\<close>, \<open>new\<close>, \<open>title\<close>, \<open>update\<close>.
    \<open>update\<close> returns the pair of the new state and the command, as the source
    assigns \<^verbatim>\<open>*self\<close> and returns the command. The specification's transition table is
    \<open>transition\<close>. Lemmas: \<open>update\<close> implements the table;
    the accounting of fetches over arbitrary message sequences (\<open>fetches_bounded\<close>);
    the closed form of a run (\<open>state_after\<close>, \<open>starts_fetch\<close>); which states share a
    window title.
  \<^item> \<open>Quotes_View\<close>: the widget tree as a datatype \<open>Element\<close> that records the
    builder calls of the source in order, the functions \<open>button\<close>, \<open>Quote_view\<close>, \<open>view\<close>,
    the observations \<open>texts\<close>, \<open>buttons\<close>, \<open>messages\<close>, and the specification's rendering
    rule \<open>rendering\<close>. Lemmas: \<open>view\<close> implements the rule, can be read back to the
    state (\<open>screen_state\<close>), and offers only messages that start a fetch; along a
    \<open>legal\<close> sequence of messages, in which only what is on screen is pressed, no
    press is wasted.
  \<^item> \<open>Quotes_Runtime\<close>: the run loop as a transition system over \<open>Sys\<close> (state,
    window, inbox, running tasks, world record) with the actions \<open>Press\<close>, \<open>Complete\<close>
    and \<open>Deliver\<close>; \<open>fire\<close> is the step function, \<open>step\<close> the step relation, \<open>reachable\<close>
    the reachable states, \<open>sys_inv\<close> the invariant. Lemmas: the invariant holds in
    every reachable state; fetches never overlap; requests go to the endpoint only and
    answer presses; while a fetch does not complete nothing but stale deliveries can
    happen; the program is never stuck; a quote is always reachable in a bounded
    number of actions.
  \<^item> \<open>Quotes_Trace\<close>: executions of the run loop seen from outside, with the
    observation \<open>taken\<close> of the messages that leave the inbox. Lemmas: after any
    execution from a reachable state the application state, the texts and buttons in
    the window and the number of fetches started are those the closed form of a run of
    \<open>update\<close> and the rendering rule give for the messages taken
    (\<open>loop_refines_run\<close>); a whole \<open>session\<close> of fetch cycles ends showing the last
    outcome, with one request per fetch and the failures logged in order.
  \<^item> \<open>Quotes_Settle\<close>: the run loop left alone: \<open>schedule\<close>, the actions by which
    the loop delivers and completes until nothing is left (a recursive function whose
    termination proof is that every turn lowers \<open>weight\<close>), and \<open>rest\<close>, the state
    it ends in. Lemmas: the schedule is executable and ends in a quiet state; its
    length is bounded by the weight; from a reachable state it ends in \<open>rest\<close>, never
    on the loading screen, and it costs at most one request however many presses are
    queued (the inbox of a reachable state is \<open>tidy\<close>).
  \<^item> \<open>Quotes_Decode\<close>: the decoder that \<^verbatim>\<open>#[derive(Deserialize)]\<close> generates for
    \<^verbatim>\<open>struct Entry\<close>, for a body that is a JSON object (\<open>Json\<close>, \<open>visit_map\<close> with
    its loop \<open>visit_fields\<close> and its end \<open>finish\<close>). Lemmas: the decoder agrees with
    the reference reading of an object (\<open>values_of\<close>); an entry written as an object
    decodes to itself, in whatever order its fields stand and whatever other fields
    surround them (the fields as a multiset).
  \<^item> this theory: the properties that span components: what the endpoint served is
    what the screen and the title show (fetcher, state machine, presentation); the
    whole program from \<open>main\<close> to rest against an endpoint that serves an object
    (run loop, decoder, fetcher, state machine, presentation); and the third scenario
    of the specification, for any number of presses. The other three scenarios are
    instances of the theorems above: the first two of \<open>fetch_shows_outcome\<close> and
    \<open>start_to_screen\<close>, the fourth of \<open>update_refines_transition\<close> and
    \<open>view_refines_rendering\<close>.

  \<^bold>\<open>Correspondence of state and operations.\<close> Mutation of \<^verbatim>\<open>*self\<close> is explicit state
  passing. The asynchronous fetch is split where the program is split: \<open>update\<close> only
  returns the command; the task runs in the run loop's \<open>Complete\<close> action, which calls
  \<open>search\<close> against a network chosen by the environment, atomically; its result
  reaches \<open>update\<close> in a later \<open>Deliver\<close>. Between the two any number of presses may be
  queued. The actions interleave freely, which covers every schedule of the real
  loop in which \<open>update\<close> runs on one thread.

  \<^bold>\<open>Bounds.\<close> Nothing is fuelled. All functions are total: structural recursion, but
  for \<open>schedule\<close> (measure: the weight of the state), whose termination is proved. The liveness theorems give explicit
  bounds (inbox length plus four actions to any quote; the weight to rest).
  Sizes, paddings and spacings are natural numbers as written in the source; the colour
  components are reals, exactly the literals of the source. No arithmetic is done on
  them.

  \<^bold>\<open>Not modelled.\<close> The GUI library (layout, drawing, event decoding, window chrome, the
  executor) and the HTTP client are libraries the source only calls: the first is
  replaced by the transition system above, the second by the network parameter, whose
  response carries the outcome of decoding the body. Of the JSON library only the
  decoder generated for \<^verbatim>\<open>struct Entry\<close> is modelled, and only for objects: turning the
  bytes of a body into a JSON value, and bodies that are not objects, are the
  library's, and nothing is claimed about them. Timeouts and cancellation do not exist
  in the source; what follows from their absence is \<open>hung_fetch\<close> in \<open>Quotes_Runtime\<close>.
  Time is not modelled: liveness is stated as reachability, enabledness and termination
  of the loop left alone, not under a fairness assumption. Strings are byte lists with
  no validity constraint: that a Rust \<^verbatim>\<open>String\<close> is valid UTF-8 is a guarantee of its
  type and is not proved again here. The builder calls of the widget tree are recorded
  as data and given no meaning. Of \<^verbatim>\<open>main\<close> only the start of the loop is modelled: the
  error \<^verbatim>\<open>Quotes::run\<close> may return when the window cannot be created is left out. The
  lines of src/src/main.rs that no definition translates are the \<^verbatim>\<open>use\<close> declarations,
  the attributes and the header of the \<^verbatim>\<open>impl\<close> block with its associated types.
\<close>

section \<open>From the network to the screen\<close>

text \<open>
  C4 (functional). End to end, in any state: when the result of \<open>search\<close> is
  wrapped as \<open>QuoteFound\<close> and passed to \<open>update\<close>, the screen and the title of the new
  state show exactly what the endpoint served. A decoded entry appears with its text
  and its author unchanged, the author also in the title, and a button to search on; a
  transport error and an undecodable body both give the failure screen with a button to
  try again.
\<close>
theorem fetch_shows_outcome:
  "(let r = fst (search net w); s' = fst (update s (QuoteFound r))
    in (texts (view s'), buttons (view s'), title s')) =
     (case net url of
        Inl e \<Rightarrow>
          ([''Whoops! Something went wrong...''], [(''Try again'', Search)],
           ''Whoops! - Pok'' @ [CHR 0xC3, CHR 0xA9] @ ''dex'')
      | Inr response \<Rightarrow>
          (case json response of
             Inl e \<Rightarrow>
               ([''Whoops! Something went wrong...''], [(''Try again'', Search)],
                ''Whoops! - Pok'' @ [CHR 0xC3, CHR 0xA9] @ ''dex'')
           | Inr entry \<Rightarrow>
               ([entry_content entry, ''-'' @ entry_author entry], [(''Keep searching!'', Search)],
                entry_author entry @ '' - Pok'' @ [CHR 0xC3, CHR 0xA9] @ ''dex'')))"
  by (simp add: search_eq outcome_def loaded_with_def view_simps title_def split: sum.split)

text \<open>
  C15 (functional). The whole program, from start to rest: started against an endpoint
  that serves an object, and left alone, the run loop completes the one fetch, delivers
  its result and stops. It has then sent exactly one request; the window shows the two
  strings of the object, with the author in the title and a button to search on, when
  the object has each field exactly once and as a string, and the failure screen with
  the decoder's complaint on standard error otherwise.
\<close>
theorem start_to_screen:
  "schedule (serving wrap st fs) main = [Complete 0 (serving wrap st fs), Deliver] \<and>
   (\<exists>t. exec fire main (schedule (serving wrap st fs) main) = Some t \<and> quiet t \<and>
      requests (io t) = [url] \<and>
      (texts (window t), buttons (window t), window_title t, stderr (io t)) =
        (case visit_map fs of
           Inl e \<Rightarrow>
             ([''Whoops! Something went wrong...''], [(''Try again'', Search)],
              ''Whoops! - Pok'' @ [CHR 0xC3, CHR 0xA9] @ ''dex'', [wrap e])
         | Inr entry \<Rightarrow>
             ([entry_content entry, ''-'' @ entry_author entry], [(''Keep searching!'', Search)],
              entry_author entry @ '' - Pok'' @ [CHR 0xC3, CHR 0xA9] @ ''dex'', [])))"
  by (simp add: main_eq schedule_showing exec_cycle quiet_def search_eq outcome_def serving_def
      loaded_with_def quote_of_def view_simps title_def del: exec.simps fire.simps split: sum.split)

section \<open>The third scenario of the specification\<close>

text \<open>
  C24 (safety). Scenario 3: from \<open>Errored\<close>, "Try again" leads to \<open>Loading\<close> and
  starts one fetch; pressing it again before the fetch has completed starts nothing
  more, however often.
\<close>
theorem scenario_retry_twice:
  "buttons (view Errored) = [(''Try again'', Search)] \<and>
   run update Errored (replicate (Suc n) Search) =
     (Loading, Command_perform Quote_search Message_QuoteFound # replicate n Command_none)"
proof -
  have "run update Loading (replicate n Search) = (Loading, replicate n Command_none)"
    by (induction n) simp_all
  then show ?thesis
    by (simp add: view_simps fetch_def)
qed

end
